theory Spec2Isabelle
  imports Main
begin

section \<open>Data model\<close>

text \<open>
  The structs of the package, field by field. A Go pointer that may be nil is an
  \<open>option\<close>; a Go \<open>(value, error)\<close> pair keeps both components, since the code
  returns a result together with an error in \<open>Verify\<close>.
\<close>

record Syntax =
  Username :: string
  SyntaxDomain :: string
  Valid :: bool

record SMTP =
  HostExists :: bool
  FullInbox :: bool
  CatchAll :: bool
  Deliverable :: bool
  Disabled :: bool

record Gravatar =
  HasGravatar :: bool
  GravatarUrl :: string

record MXrec =
  Host :: string
  Pref :: nat

record Mx =
  HasMXRecord :: bool
  Records :: "MXrec list"

record Result =
  Email :: string
  Reachable :: string
  Syntax :: Syntax
  SMTP :: "SMTP option"
  Gravatar :: "Gravatar option"
  Suggestion :: string
  Disposable :: bool
  RoleAccount :: bool
  Free :: bool
  HasMxRecords :: bool
  TLDExists :: bool

text \<open>The configuration switches of \<open>Verifier\<close> that the modelled functions read.\<close>

record Verifier =
  mxCheckEnabled :: bool
  smtpCheckEnabled :: bool
  catchAllCheckEnabled :: bool
  domainSuggestEnabled :: bool
  gravatarCheckEnabled :: bool
  TopLevelDomainDisabled :: bool
  fromEmail :: string
  helloName :: string
  proxyURI :: string

text \<open>
  Error values. \<open>External m\<close> is an error produced outside the modelled code (resolver,
  SMTP client, HTTP client, hashing) with text \<open>m\<close>; \<open>Errorf p e\<close> is
  \<open>fmt.Errorf(p + ": %w", e)\<close>; \<open>ErrorfTLD d\<close> is
  \<open>fmt.Errorf("TLD domain %q does not exist", d)\<close>; \<open>Joined es\<close> is the value
  \<open>errors.Join\<close> builds from the non-nil errors \<open>es\<close>.
\<close>

datatype err =
    External string
  | Errorf string err
  | ErrorfTLD string
  | Joined "err list"

text \<open>
  A \<open>context.Context\<close> as the callees can observe it: the caller's context, a context
  whose cancellation has been observed, or one with a timeout added. A derived context
  that has not been cancelled is observed exactly as its parent, so it is the parent.
\<close>

datatype ctx =
    Caller nat
  | Cancelled ctx
  | WithTimeout ctx nat

record Response =
  StatusCode :: int
  ReadAllBody :: "err + string"

text \<open>A Go function either returns or panics (here: a nil pointer dereference).\<close>

datatype 'a run = Panic | Ret 'a

text \<open>
  The calls \<open>Verify\<close> makes to its collaborators and the network operations of the
  checks, recorded in order, so that "is not invoked" is a statement about the model.
\<close>

datatype call =
    Call_ParseAddress string
  | Call_IsFreeDomain string
  | Call_IsRoleAccount string
  | Call_IsDisposable string
  | Call_TopLevelDomainExists string
  | Call_CheckMX string
  | Call_LookupMX string
  | Call_CheckSMTP string string
  | Call_CheckGravatar string
  | Call_HTTP_Do string
  | Call_SuggestDomain string

text \<open>
  Everything the modelled functions use and the sources do not contain: the helpers of
  the package that live in other files, its lookup tables and constants, and the
  operations of the Go library that touch the network. They are parameters.
\<close>

record Env =
  trimLower :: "string \<Rightarrow> string"
  ParseAddress :: "Verifier \<Rightarrow> string \<Rightarrow> Syntax"
  IsFreeDomain :: "Verifier \<Rightarrow> string \<Rightarrow> bool"
  IsRoleAccount :: "Verifier \<Rightarrow> string \<Rightarrow> bool"
  IsDisposable :: "Verifier \<Rightarrow> string \<Rightarrow> bool"
  domainToASCII :: "string \<Rightarrow> string"
  GenericTLDs :: "string set"
  CountryCodeTLDs :: "string set"
  unicode_To_LowerCase :: "nat \<Rightarrow> nat"
  LookupMX :: "ctx \<Rightarrow> string \<Rightarrow> MXrec list \<times> err option"
  CheckSMTP :: "Verifier \<Rightarrow> ctx \<Rightarrow> string \<Rightarrow> string \<Rightarrow> SMTP option \<times> err option"
  getMD5Hash :: "string \<Rightarrow> err + string"
  gravatarBaseUrl :: string
  gravatarDefaultMd5 :: string
  http_NewRequest :: "string \<Rightarrow> err option"
  http_Do :: "ctx \<Rightarrow> string \<Rightarrow> err + Response"
  SuggestDomain :: "Verifier \<Rightarrow> string \<Rightarrow> string"
  strconv_Quote :: "string \<Rightarrow> string"

section \<open>The reachability classifier\<close>

text \<open>
  Modelled from the spec: the constants \<open>reachableUnknown\<close>, \<open>reachableYes\<close> and
  \<open>reachableNo\<close> are declared in a file that is not among the sources; the spec names
  the three verdicts \<open>unknown\<close>, \<open>yes\<close> and \<open>no\<close>.
\<close>

definition reachableUnknown :: string where
  "reachableUnknown = ''unknown''"

definition reachableYes :: string where
  "reachableYes = ''yes''"

definition reachableNo :: string where
  "reachableNo = ''no''"

text \<open>
  \<open>calculateReachable\<close> takes a pointer. With SMTP checking disabled it returns before
  reading it; otherwise reading a field of a nil pointer panics.
\<close>

definition calculateReachable :: "Verifier \<Rightarrow> SMTP option \<Rightarrow> string run" where
  "calculateReachable v s =
     (if \<not> smtpCheckEnabled v then Ret reachableUnknown
      else case s of
        None \<Rightarrow> Panic
      | Some r \<Rightarrow>
          if Deliverable r then Ret reachableYes
          else if CatchAll r then Ret reachableUnknown
          else Ret reachableNo)"

section \<open>Errors\<close>

text \<open>
  \<open>errors.Join\<close> discards nil arguments, returns nil when none is left, and otherwise
  an error that wraps the remaining ones in order.
\<close>

definition errors_Join :: "err option list \<Rightarrow> err option" where
  "errors_Join es =
     (let kept = concat (map (\<lambda>e. case e of None \<Rightarrow> [] | Some x \<Rightarrow> [x]) es)
      in if kept = [] then None else Some (Joined kept))"

text \<open>The text \<open>Error()\<close> returns; \<open>q\<close> is \<open>strconv.Quote\<close>, which \<open>%q\<close> applies.\<close>

fun joinLines :: "string list \<Rightarrow> string" where
  "joinLines [] = []"
| "joinLines [x] = x"
| "joinLines (x # y # ys) = x @ [CHR 0x0A] @ joinLines (y # ys)"

fun message :: "(string \<Rightarrow> string) \<Rightarrow> err \<Rightarrow> string" where
  "message q (External m) = m"
| "message q (Errorf p e) = p @ '': '' @ message q e"
| "message q (ErrorfTLD d) = ''TLD domain '' @ q d @ '' does not exist''"
| "message q (Joined es) = joinLines (map (message q) es)"

text \<open>
  The errors \<open>errors.Is\<close> and \<open>errors.As\<close> visit in the tree of an error, in
  order: the error itself first, then what it wraps; a value built by \<open>errors.Join\<close>
  is visited before the errors it joins.
\<close>

fun causes :: "err \<Rightarrow> err list" where
  "causes (External m) = [External m]"
| "causes (Errorf p e) = Errorf p e # causes e"
| "causes (ErrorfTLD d) = [ErrorfTLD d]"
| "causes (Joined es) = Joined es # concat (map causes es)"

section \<open>Top-level domain check\<close>

text \<open>
  Go strings are byte sequences; \<open>strings.ToLower\<close> reads them as UTF-8. The decoder
  and the encoder follow \<open>unicode/utf8\<close>: \<open>utf8_first\<close> is its table of lead bytes
  (sequence length and accepted range of the second byte), an invalid or truncated
  sequence decodes to \<open>RuneError\<close> with width 1.
\<close>

definition RuneError :: nat where
  "RuneError = 0xFFFD"

definition utf8_first :: "nat \<Rightarrow> (nat \<times> nat \<times> nat) option" where
  "utf8_first b =
     (if 0xC2 \<le> b \<and> b \<le> 0xDF then Some (2, 0x80, 0xBF)
      else if b = 0xE0 then Some (3, 0xA0, 0xBF)
      else if 0xE1 \<le> b \<and> b \<le> 0xEC then Some (3, 0x80, 0xBF)
      else if b = 0xED then Some (3, 0x80, 0x9F)
      else if 0xEE \<le> b \<and> b \<le> 0xEF then Some (3, 0x80, 0xBF)
      else if b = 0xF0 then Some (4, 0x90, 0xBF)
      else if 0xF1 \<le> b \<and> b \<le> 0xF3 then Some (4, 0x80, 0xBF)
      else if b = 0xF4 then Some (4, 0x80, 0x8F)
      else None)"

definition DecodeRuneInString :: "nat list \<Rightarrow> nat \<times> nat" where
  "DecodeRuneInString s =
     (case s of
        [] \<Rightarrow> (RuneError, 0)
      | s0 # t \<Rightarrow>
          if s0 < 0x80 then (s0, 1)
          else
            (case utf8_first s0 of
               None \<Rightarrow> (RuneError, 1)
             | Some (sz, lo, hi) \<Rightarrow>
                 if length s < sz then (RuneError, 1)
                 else if s ! 1 < lo \<or> hi < s ! 1 then (RuneError, 1)
                 else if sz \<le> 2 then ((s0 mod 32) * 64 + s ! 1 mod 64, 2)
                 else if s ! 2 < 0x80 \<or> 0xBF < s ! 2 then (RuneError, 1)
                 else if sz \<le> 3 then
                   ((s0 mod 16) * 4096 + (s ! 1 mod 64) * 64 + s ! 2 mod 64, 3)
                 else if s ! 3 < 0x80 \<or> 0xBF < s ! 3 then (RuneError, 1)
                 else ((s0 mod 8) * 262144 + (s ! 1 mod 64) * 4096 + (s ! 2 mod 64) * 64
                        + s ! 3 mod 64, 4)))"

definition EncodeRune :: "nat \<Rightarrow> nat list" where
  "EncodeRune r =
     (if r \<le> 0x7F then [r]
      else if r \<le> 0x7FF then [0xC0 + r div 64, 0x80 + r mod 64]
      else if 0x10FFFF < r \<or> (0xD800 \<le> r \<and> r \<le> 0xDFFF) then [0xEF, 0xBF, 0xBD]
      else if r \<le> 0xFFFF then
        [0xE0 + r div 4096, 0x80 + (r div 64) mod 64, 0x80 + r mod 64]
      else [0xF0 + r div 262144, 0x80 + (r div 4096) mod 64, 0x80 + (r div 64) mod 64,
            0x80 + r mod 64])"

lemma DecodeRuneInString_width:
  "s \<noteq> [] \<Longrightarrow> 1 \<le> snd (DecodeRuneInString s)"
  by (cases s) (auto simp: DecodeRuneInString_def split: option.splits)

text \<open>
  \<open>strings.Map\<close>: every decoded rune (an invalid byte counts as \<open>RuneError\<close>) is
  replaced by the encoding of its image.
\<close>

function strings_Map :: "(nat \<Rightarrow> nat) \<Rightarrow> nat list \<Rightarrow> nat list" where
  "strings_Map f s =
     (if s = [] then []
      else EncodeRune (f (fst (DecodeRuneInString s)))
             @ strings_Map f (drop (snd (DecodeRuneInString s)) s))"
  by pat_completeness auto
termination
proof (relation "measure (\<lambda>(f, s). length s)")
  show "wf (measure (\<lambda>(f, s). length s))" by simp
next
  fix f :: "nat \<Rightarrow> nat" and s :: "nat list"
  assume "s \<noteq> []"
  then show "((f, drop (snd (DecodeRuneInString s)) s), (f, s)) \<in> measure (\<lambda>(f, s). length s)"
    using DecodeRuneInString_width [of s] by (cases s) auto
qed

declare strings_Map.simps [simp del]

text \<open>
  \<open>unicode.ToLower\<close>: ASCII is handled in the function itself, every other rune by
  the case tables of the \<open>unicode\<close> package (a parameter).
\<close>

definition unicode_ToLower :: "Env \<Rightarrow> nat \<Rightarrow> nat" where
  "unicode_ToLower env r =
     (if r \<le> 0x7F then (if 0x41 \<le> r \<and> r \<le> 0x5A then r + 32 else r)
      else unicode_To_LowerCase env r)"

text \<open>
  \<open>strings.ToLower\<close>: an ASCII-only string is returned as it is when it has no upper
  case letter and lowered byte by byte otherwise; any other string goes through
  \<open>strings.Map\<close>.
\<close>

definition strings_ToLower :: "Env \<Rightarrow> string \<Rightarrow> string" where
  "strings_ToLower env s =
     (let bs = map of_char s in
      if list_all (\<lambda>c. c < 0x80) bs then
        (if \<not> list_ex (\<lambda>c. 0x41 \<le> c \<and> c \<le> 0x5A) bs then s
         else map (\<lambda>c. char_of (if 0x41 \<le> c \<and> c \<le> 0x5A then c + 32 else c)) bs)
      else map char_of (strings_Map (unicode_ToLower env) bs))"

text \<open>
  \<open>strings.LastIndex\<close> for a one-byte substring: the last position, or -1. The
  scan carries the current position and the last position found so far.
\<close>

fun lastIndexFrom :: "string \<Rightarrow> char \<Rightarrow> int \<Rightarrow> int \<Rightarrow> int" where
  "lastIndexFrom [] c i found = found"
| "lastIndexFrom (x # xs) c i found = lastIndexFrom xs c (i + 1) (if x = c then i else found)"

definition strings_LastIndex :: "string \<Rightarrow> char \<Rightarrow> int" where
  "strings_LastIndex s c = lastIndexFrom s c 0 (- 1)"

definition TopLevelDomainExists :: "Env \<Rightarrow> string \<Rightarrow> bool" where
  "TopLevelDomainExists env email0 =
     (let email = strings_ToLower env email0;
          lastDot = strings_LastIndex email (CHR ''.'')
      in if lastDot = - 1 then False
         else let tld = drop (nat (lastDot + 1)) email
              in tld \<in> GenericTLDs env \<or> tld \<in> CountryCodeTLDs env)"

section \<open>The MX and gravatar checks\<close>

text \<open>
  Each check returns the Go pair (pointer, error) and the network operations it
  performed.
\<close>

definition CheckMX :: "Verifier \<Rightarrow> Env \<Rightarrow> ctx \<Rightarrow> string \<Rightarrow> (Mx option \<times> err option) \<times> call list" where
  "CheckMX v env ctx domain0 =
     (if \<not> mxCheckEnabled v then ((Some \<lparr>HasMXRecord = False, Records = []\<rparr>, None), [])
      else
        let domain = domainToASCII env domain0;
            mx = fst (LookupMX env ctx domain);
            e = snd (LookupMX env ctx domain)
        in if e \<noteq> None \<and> length mx = 0 then ((None, e), [Call_LookupMX domain])
           else ((Some \<lparr>HasMXRecord = (0 < length mx), Records = mx\<rparr>, None),
                 [Call_LookupMX domain]))"

definition CheckGravatar :: "Verifier \<Rightarrow> Env \<Rightarrow> ctx \<Rightarrow> string \<Rightarrow> (Gravatar option \<times> err option) \<times> call list" where
  "CheckGravatar v env ctx0 email =
     (if \<not> gravatarCheckEnabled v then ((None, None), [])
      else
        let ctx = WithTimeout ctx0 10 in
        case getMD5Hash env (trimLower env email) of
          Inl e \<Rightarrow> ((None, Some e), [])
        | Inr emailMd5 \<Rightarrow>
            let gravatarUrl = gravatarBaseUrl env @ emailMd5 @ ''?d=404'' in
            (case http_NewRequest env gravatarUrl of
              Some e \<Rightarrow> ((None, Some e), [])
            | None \<Rightarrow>
                (case http_Do env ctx gravatarUrl of
                   Inl e \<Rightarrow> ((None, Some e), [Call_HTTP_Do gravatarUrl])
                 | Inr resp \<Rightarrow>
                     (case ReadAllBody resp of
                        Inl e \<Rightarrow> ((None, Some e), [Call_HTTP_Do gravatarUrl])
                      | Inr body \<Rightarrow>
                          (case getMD5Hash env body of
                             Inl e \<Rightarrow> ((None, Some e), [Call_HTTP_Do gravatarUrl])
                           | Inr md5Body \<Rightarrow>
                               if md5Body = gravatarDefaultMd5 env \<or> StatusCode resp \<noteq> 200
                               then ((Some \<lparr>HasGravatar = False, GravatarUrl = []\<rparr>, None),
                                     [Call_HTTP_Do gravatarUrl])
                               else ((Some \<lparr>HasGravatar = True, GravatarUrl = gravatarUrl\<rparr>,
                                      None),
                                     [Call_HTTP_Do gravatarUrl]))))))"

section \<open>The check orchestrator\<close>

definition enabledOptions :: "Verifier \<Rightarrow> nat" where
  "enabledOptions v =
     (if mxCheckEnabled v then 1 else 0) + (if smtpCheckEnabled v then 1 else 0)
       + (if gravatarCheckEnabled v then 1 else 0) + (if domainSuggestEnabled v then 1 else 0)"

text \<open>
  The four functions \<open>Verify\<close> hands to \<open>g.Go\<close>. Each reads the context variable
  \<open>ctx\<close> and writes fields of \<open>ret\<close>; it returns the updated \<open>ret\<close> with its error, or
  panics, and the calls it made.
\<close>

definition goCheckMX :: "Verifier \<Rightarrow> Env \<Rightarrow> Syntax \<Rightarrow> ctx \<Rightarrow> Result \<Rightarrow> (Result \<times> err option) run \<times> call list" where
  "goCheckMX v env syntax ctx ret =
     (case CheckMX v env ctx (SyntaxDomain syntax) of
        ((mx, Some e), cs) \<Rightarrow>
          (Ret (ret, Some (Errorf ''CheckMX failed'' e)), Call_CheckMX (SyntaxDomain syntax) # cs)
      | ((None, None), cs) \<Rightarrow> (Panic, Call_CheckMX (SyntaxDomain syntax) # cs)
      | ((Some mx, None), cs) \<Rightarrow>
          (Ret (ret\<lparr>HasMxRecords := HasMXRecord mx\<rparr>, None),
           Call_CheckMX (SyntaxDomain syntax) # cs))"

definition goCheckSMTP :: "Verifier \<Rightarrow> Env \<Rightarrow> Syntax \<Rightarrow> ctx \<Rightarrow> Result \<Rightarrow> (Result \<times> err option) run \<times> call list" where
  "goCheckSMTP v env syntax ctx ret =
     (case CheckSMTP env v ctx (SyntaxDomain syntax) (Username syntax) of
        (smtp, Some e) \<Rightarrow>
          (Ret (ret, Some (Errorf ''CheckSMTP failed'' e)),
           [Call_CheckSMTP (SyntaxDomain syntax) (Username syntax)])
      | (smtp, None) \<Rightarrow>
          (case calculateReachable v smtp of
             Panic \<Rightarrow> (Panic, [Call_CheckSMTP (SyntaxDomain syntax) (Username syntax)])
           | Ret r \<Rightarrow>
               (Ret (ret\<lparr>SMTP := smtp, Reachable := r\<rparr>, None),
                [Call_CheckSMTP (SyntaxDomain syntax) (Username syntax)])))"

definition goCheckGravatar :: "Verifier \<Rightarrow> Env \<Rightarrow> string \<Rightarrow> ctx \<Rightarrow> Result \<Rightarrow> (Result \<times> err option) run \<times> call list" where
  "goCheckGravatar v env email ctx ret =
     (case CheckGravatar v env ctx email of
        ((g, Some e), cs) \<Rightarrow>
          (Ret (ret, Some (Errorf ''CheckGravatar failed'' e)), Call_CheckGravatar email # cs)
      | ((g, None), cs) \<Rightarrow> (Ret (ret\<lparr>Gravatar := g\<rparr>, None), Call_CheckGravatar email # cs))"

definition goSuggestDomain :: "Verifier \<Rightarrow> Env \<Rightarrow> Syntax \<Rightarrow> ctx \<Rightarrow> Result \<Rightarrow> (Result \<times> err option) run \<times> call list" where
  "goSuggestDomain v env syntax ctx ret =
     (if domainSuggestEnabled v
      then (Ret (ret\<lparr>Suggestion := SuggestDomain env v (SyntaxDomain syntax)\<rparr>, None),
            [Call_SuggestDomain (SyntaxDomain syntax)])
      else (Ret (ret, None), []))"

text \<open>
  \<open>noGroup\<close>: \<open>Go\<close> runs the function at once and joins its error to \<open>ng.err\<close>;
  \<open>Wait\<close> returns \<open>ng.err\<close>. The state is \<open>ret\<close>, \<open>ng.err\<close> and the calls so far; a
  panic ends the run.
\<close>

definition noGroup_Go :: "(Result \<Rightarrow> (Result \<times> err option) run \<times> call list) \<Rightarrow> (Result \<times> err option) run \<times> call list \<Rightarrow> (Result \<times> err option) run \<times> call list" where
  "noGroup_Go f st =
     (case st of
        (Panic, tr) \<Rightarrow> (Panic, tr)
      | (Ret (ret, ng_err), tr) \<Rightarrow>
          (case f ret of
             (Panic, cs) \<Rightarrow> (Panic, tr @ cs)
           | (Ret (ret', None), cs) \<Rightarrow> (Ret (ret', ng_err), tr @ cs)
           | (Ret (ret', Some e), cs) \<Rightarrow> (Ret (ret', errors_Join [ng_err, Some e]), tr @ cs)))"

text \<open>
  \<open>errgroup.Group\<close> (golang.org/x/sync, a dependency) by its contract: \<open>Go\<close> starts
  the function in a goroutine; the first function to return a non-nil error sets the
  group's error and cancels the group's context; \<open>Wait\<close> blocks until all functions
  have returned and returns that first error. The functions of \<open>Verify\<close> write
  disjoint fields of \<open>ret\<close> and read none, so a run is determined by the order in
  which they return and by whether each one observed the cancellation: a schedule
  lists the checks in the order of their return, each with that flag.
\<close>

datatype check = MXCheck | SMTPCheck | GravatarCheck | SuggestCheck

type_synonym sched = "(check \<times> bool) list"


fun errgroup_run :: "(check \<Rightarrow> ctx \<Rightarrow> Result \<Rightarrow> (Result \<times> err option) run \<times> call list) \<Rightarrow> ctx \<Rightarrow> sched \<Rightarrow> (Result \<times> err option) run \<times> call list \<Rightarrow> (Result \<times> err option) run \<times> call list" where
  "errgroup_run tasks ctx [] st = st"
| "errgroup_run tasks ctx ((c, saw) # rest) (Panic, tr) = (Panic, tr)"
| "errgroup_run tasks ctx ((c, saw) # rest) (Ret (ret, g_err), tr) =
     (case tasks c (if saw \<and> g_err \<noteq> None then Cancelled ctx else ctx) ret of
        (Panic, cs) \<Rightarrow> (Panic, tr @ cs)
      | (Ret (ret', e), cs) \<Rightarrow>
          errgroup_run tasks ctx rest
            (Ret (ret', if g_err = None then e else g_err), tr @ cs))"

definition checkTask :: "Verifier \<Rightarrow> Env \<Rightarrow> Syntax \<Rightarrow> string \<Rightarrow> check \<Rightarrow> ctx \<Rightarrow> Result \<Rightarrow> (Result \<times> err option) run \<times> call list" where
  "checkTask v env syntax email c =
     (case c of
        MXCheck \<Rightarrow> goCheckMX v env syntax
      | SMTPCheck \<Rightarrow> goCheckSMTP v env syntax
      | GravatarCheck \<Rightarrow> goCheckGravatar v env email
      | SuggestCheck \<Rightarrow> goSuggestDomain v env syntax)"

text \<open>The two runners on the four checks of \<open>Verify\<close>, from \<open>g.Go\<close> to \<open>g.Wait\<close>.\<close>

definition runChecks_noGroup :: "Verifier \<Rightarrow> Env \<Rightarrow> ctx \<Rightarrow> Syntax \<Rightarrow> string \<Rightarrow> Result \<times> call list \<Rightarrow> (Result \<times> err option) run \<times> call list" where
  "runChecks_noGroup v env ctx syntax email st =
     noGroup_Go (goSuggestDomain v env syntax ctx)
       (noGroup_Go (goCheckGravatar v env email ctx)
          (noGroup_Go (goCheckSMTP v env syntax ctx)
             (noGroup_Go (goCheckMX v env syntax ctx) (Ret (fst st, None), snd st))))"

definition runChecks_errgroup :: "Verifier \<Rightarrow> Env \<Rightarrow> sched \<Rightarrow> ctx \<Rightarrow> Syntax \<Rightarrow> string \<Rightarrow> Result \<times> call list \<Rightarrow> (Result \<times> err option) run \<times> call list" where
  "runChecks_errgroup v env sched ctx syntax email st =
     errgroup_run (checkTask v env syntax email) ctx sched (Ret (fst st, None), snd st)"

text \<open>The end of \<open>Verify\<close>: \<open>&ret\<close> with the error of \<open>g.Wait()\<close>, nil or not.\<close>

definition returnResult :: "(Result \<times> err option) run \<times> call list \<Rightarrow> (Result option \<times> err option) run \<times> call list" where
  "returnResult st =
     (case st of
        (Panic, tr) \<Rightarrow> (Panic, tr)
      | (Ret (ret, e), tr) \<Rightarrow> (Ret (Some ret, e), tr))"

definition zeroResult :: Result where
  "zeroResult =
     \<lparr>Email = [], Reachable = [],
      Syntax = \<lparr>Username = [], SyntaxDomain = [], Valid = False\<rparr>,
      SMTP = None, Gravatar = None, Suggestion = [], Disposable = False,
      RoleAccount = False, Free = False, HasMxRecords = False, TLDExists = False\<rparr>"

text \<open>
  \<open>Verify\<close>. Besides the verifier, the context and the address it takes the
  environment and, for the concurrent runner, the schedule.
\<close>

definition Verify :: "Verifier \<Rightarrow> Env \<Rightarrow> sched \<Rightarrow> ctx \<Rightarrow> string \<Rightarrow> (Result option \<times> err option) run \<times> call list" where
  "Verify v env sched ctx email0 =
     (let email = trimLower env email0;
          ret0 = zeroResult\<lparr>Email := email, Reachable := reachableUnknown\<rparr>;
          syntax = ParseAddress env v email;
          ret1 = ret0\<lparr>Syntax := syntax\<rparr>;
          tr1 = [Call_ParseAddress email]
      in if \<not> Valid syntax then (Ret (Some ret1, None), tr1)
         else
           let ret2 = ret1\<lparr>Free := IsFreeDomain env v (SyntaxDomain syntax),
                           RoleAccount := IsRoleAccount env v (Username syntax),
                           Disposable := IsDisposable env v (SyntaxDomain syntax)\<rparr>;
               tr2 = tr1 @ [Call_IsFreeDomain (SyntaxDomain syntax),
                            Call_IsRoleAccount (Username syntax),
                            Call_IsDisposable (SyntaxDomain syntax)];
               domainIDNA = domainToASCII env (SyntaxDomain syntax)
           in if \<not> TopLevelDomainDisabled v \<and> \<not> TopLevelDomainExists env domainIDNA
              then (Ret (None, Some (ErrorfTLD domainIDNA)),
                    tr2 @ [Call_TopLevelDomainExists domainIDNA])
              else
                let ret3 = (if \<not> TopLevelDomainDisabled v then ret2\<lparr>TLDExists := True\<rparr>
                            else ret2);
                    tr3 = (if \<not> TopLevelDomainDisabled v
                           then tr2 @ [Call_TopLevelDomainExists domainIDNA] else tr2)
                in if Disposable ret3 then (Ret (Some ret3, None), tr3)
                   else if 1 < enabledOptions v
                   then returnResult (runChecks_errgroup v env sched ctx syntax email (ret3, tr3))
                   else returnResult (runChecks_noGroup v env ctx syntax email (ret3, tr3)))"

text \<open>
  The value of \<open>ret\<close> and the calls made when \<open>Verify\<close> reaches the checks (the
  syntax is valid, the TLD check has passed or is switched off).
\<close>

definition beforeChecks :: "Verifier \<Rightarrow> Env \<Rightarrow> string \<Rightarrow> Result \<times> call list" where
  "beforeChecks v env email0 =
     (let email = trimLower env email0;
          syntax = ParseAddress env v email;
          d = SyntaxDomain syntax
      in (\<lparr>Email = email, Reachable = reachableUnknown, Syntax = syntax, SMTP = None,
           Gravatar = None, Suggestion = [], Disposable = IsDisposable env v d,
           RoleAccount = IsRoleAccount env v (Username syntax),
           Free = IsFreeDomain env v d, HasMxRecords = False,
           TLDExists = (\<not> TopLevelDomainDisabled v)\<rparr>,
          [Call_ParseAddress email, Call_IsFreeDomain d, Call_IsRoleAccount (Username syntax),
           Call_IsDisposable d]
          @ (if TopLevelDomainDisabled v then []
             else [Call_TopLevelDomainExists (domainToASCII env d)])))"

section \<open>A concrete verifier and environment\<close>

text \<open>
  \<open>NewVerifier()\<close> (only the MX check is enabled) and an environment with a small
  address parser, small tables, one domain that has a mail exchanger and an HTTP
  client that cannot connect. The examples below are evaluated on them.
\<close>

definition NewVerifier :: Verifier where
  "NewVerifier =
     \<lparr>mxCheckEnabled = True, smtpCheckEnabled = False, catchAllCheckEnabled = True,
      domainSuggestEnabled = False, gravatarCheckEnabled = False,
      TopLevelDomainDisabled = False, fromEmail = ''user@example.org'',
      helloName = ''localhost'', proxyURI = []\<rparr>"

definition parseAt :: "string \<Rightarrow> Syntax" where
  "parseAt s =
     (let u = takeWhile (\<lambda>c. c \<noteq> CHR ''@'') s;
          d = drop 1 (dropWhile (\<lambda>c. c \<noteq> CHR ''@'') s)
      in if u = [] \<or> d = [] then \<lparr>Username = [], SyntaxDomain = [], Valid = False\<rparr>
         else \<lparr>Username = u, SyntaxDomain = d, Valid = True\<rparr>)"

definition exampleEnv :: Env where
  "exampleEnv =
     \<lparr>trimLower = (\<lambda>s. s),
      ParseAddress = (\<lambda>v s. parseAt s),
      IsFreeDomain = (\<lambda>v d. d = ''gmail.com''),
      IsRoleAccount = (\<lambda>v u. u = ''admin''),
      IsDisposable = (\<lambda>v d. d = ''zzjbfwqi.shop''),
      domainToASCII = (\<lambda>d. d),
      GenericTLDs = {''com'', ''org'', ''shop''},
      CountryCodeTLDs = {''ch'', ''de''},
      unicode_To_LowerCase = (\<lambda>r. r),
      LookupMX = (\<lambda>c d. if d = ''example.com'' then ([\<lparr>Host = ''mx.example.com'', Pref = 10\<rparr>], None)
                         else if d = ''nomx.org'' then ([], None)
                         else ([], Some (External ''no such host''))),
      CheckSMTP = (\<lambda>v c d u. if \<not> smtpCheckEnabled v then (None, None)
                            else (None, Some (External ''no such host''))),
      getMD5Hash = (\<lambda>s. Inr s),
      gravatarBaseUrl = ''https://www.gravatar.com/avatar/'',
      gravatarDefaultMd5 = ''d5fe5cbcc31cff5f8ac010db72eb000c'',
      http_NewRequest = (\<lambda>u. None),
      http_Do = (\<lambda>c u. Inl (External ''connection refused'')),
      SuggestDomain = (\<lambda>v d. []),
      strconv_Quote = (\<lambda>s. [CHR 0x22] @ s @ [CHR 0x22])\<rparr>"

definition exampleSched :: sched where
  "exampleSched =
     [(MXCheck, False), (GravatarCheck, True), (SMTPCheck, False), (SuggestCheck, False)]"

section \<open>Theorems\<close>

text \<open>
  C1. The reachability classifier is the function of the spec: for every SMTP result
  \<open>r\<close> it returns \<open>unknown\<close> when SMTP checking is disabled, else \<open>yes\<close> when \<open>r\<close> is
  deliverable, else \<open>unknown\<close> when \<open>r\<close> is a catch-all, else \<open>no\<close>; it always returns.
\<close>

theorem calculateReachable_classifies:
  "calculateReachable v (Some r) =
     Ret (if \<not> smtpCheckEnabled v then ''unknown''
          else if Deliverable r then ''yes''
          else if CatchAll r then ''unknown''
          else ''no'')"
  by (simp add: calculateReachable_def reachableUnknown_def reachableYes_def reachableNo_def)

subsection \<open>Examples evaluated on the concrete environment\<close>

lemma tld_shop: "TopLevelDomainExists exampleEnv ''zzjbfwqi.shop''"
  by (simp add: TopLevelDomainExists_def strings_LastIndex_def strings_ToLower_def exampleEnv_def
      Let_def)

lemma tld_testing: "\<not> TopLevelDomainExists exampleEnv ''example.testing''"
  by (simp add: TopLevelDomainExists_def strings_LastIndex_def strings_ToLower_def exampleEnv_def
      Let_def)

lemma Verify_example_com:
  "Verify NewVerifier exampleEnv exampleSched (Caller 0) ''user@example.com'' =
     (Ret (Some \<lparr>Email = ''user@example.com'', Reachable = ''unknown'',
                 Syntax = \<lparr>Username = ''user'', SyntaxDomain = ''example.com'', Valid = True\<rparr>,
                 SMTP = None, Gravatar = None, Suggestion = [], Disposable = False,
                 RoleAccount = False, Free = False, HasMxRecords = True,
                 TLDExists = True\<rparr>, None),
      [Call_ParseAddress ''user@example.com'', Call_IsFreeDomain ''example.com'',
       Call_IsRoleAccount ''user'', Call_IsDisposable ''example.com'',
       Call_TopLevelDomainExists ''example.com'', Call_CheckMX ''example.com'',
       Call_LookupMX ''example.com'', Call_CheckSMTP ''example.com'' ''user'',
       Call_CheckGravatar ''user@example.com''])"
  by code_simp

subsection \<open>The short-circuits of Verify\<close>

text \<open>
  C8. An address that fails syntax parsing: \<open>Verify\<close> returns a non-nil result that
  carries the trimmed address, the parser's syntax record (not valid), reachability
  \<open>unknown\<close> and otherwise zero values (no SMTP, no gravatar, no suggestion, no MX
  record, no TLD flag, no classification flag) with a nil error; the only call it made
  is the one to the parser.
\<close>

theorem Verify_invalid_syntax:
  assumes "\<not> Valid (ParseAddress env v (trimLower env email))"
  shows "Verify v env sched ctx email =
           (Ret (Some \<lparr>Email = trimLower env email, Reachable = reachableUnknown,
                       Syntax = ParseAddress env v (trimLower env email),
                       SMTP = None, Gravatar = None, Suggestion = [], Disposable = False,
                       RoleAccount = False, Free = False, HasMxRecords = False,
                       TLDExists = False\<rparr>, None),
            [Call_ParseAddress (trimLower env email)])"
  using assms by (simp add: Verify_def zeroResult_def Let_def)

theorem Verify_invalid_syntax_witness:
  "\<not> Valid (ParseAddress exampleEnv NewVerifier (trimLower exampleEnv ''@example.com''))
   \<and> Verify NewVerifier exampleEnv exampleSched (Caller 0) ''@example.com'' =
       (Ret (Some \<lparr>Email = ''@example.com'', Reachable = ''unknown'',
                   Syntax = \<lparr>Username = [], SyntaxDomain = [], Valid = False\<rparr>,
                   SMTP = None, Gravatar = None, Suggestion = [], Disposable = False,
                   RoleAccount = False, Free = False, HasMxRecords = False,
                   TLDExists = False\<rparr>, None),
        [Call_ParseAddress ''@example.com''])"
proof -
  have h: "\<not> Valid (ParseAddress exampleEnv NewVerifier (trimLower exampleEnv ''@example.com''))"
    by (simp add: exampleEnv_def parseAt_def)
  show ?thesis
    using h Verify_invalid_syntax [OF h, of exampleSched "Caller 0"]
    by (simp add: exampleEnv_def parseAt_def reachableUnknown_def)
qed

text \<open>
  C6. A valid address at a disposable domain whose TLD check passes (or is switched
  off): \<open>Verify\<close> returns at once, with a nil error, a result in which only the
  address, the syntax, the classification flags and the TLD flag are set: SMTP and
  gravatar are nil, \<open>HasMxRecords\<close> is false, the suggestion is empty, reachability
  is \<open>unknown\<close>. The calls made are the parser, the three classifiers and the TLD
  check: neither \<open>CheckMX\<close> nor \<open>CheckSMTP\<close> nor \<open>CheckGravatar\<close> is invoked.
\<close>

theorem Verify_disposable:
  assumes "Valid (ParseAddress env v (trimLower env email))"
    and "IsDisposable env v (SyntaxDomain (ParseAddress env v (trimLower env email)))"
    and "TopLevelDomainDisabled v \<or>
         TopLevelDomainExists env
           (domainToASCII env (SyntaxDomain (ParseAddress env v (trimLower env email))))"
  shows "Verify v env sched ctx email =
           (Ret (Some \<lparr>Email = trimLower env email, Reachable = reachableUnknown,
                       Syntax = ParseAddress env v (trimLower env email),
                       SMTP = None, Gravatar = None, Suggestion = [], Disposable = True,
                       RoleAccount =
                         IsRoleAccount env v (Username (ParseAddress env v (trimLower env email))),
                       Free =
                         IsFreeDomain env v
                           (SyntaxDomain (ParseAddress env v (trimLower env email))),
                       HasMxRecords = False,
                       TLDExists = (\<not> TopLevelDomainDisabled v)\<rparr>, None),
            [Call_ParseAddress (trimLower env email),
             Call_IsFreeDomain (SyntaxDomain (ParseAddress env v (trimLower env email))),
             Call_IsRoleAccount (Username (ParseAddress env v (trimLower env email))),
             Call_IsDisposable (SyntaxDomain (ParseAddress env v (trimLower env email)))]
            @ (if TopLevelDomainDisabled v then []
               else [Call_TopLevelDomainExists
                       (domainToASCII env
                          (SyntaxDomain (ParseAddress env v (trimLower env email))))]))"
  using assms by (auto simp add: Verify_def zeroResult_def Let_def)

theorem Verify_disposable_witness:
  "Verify NewVerifier exampleEnv exampleSched (Caller 0) ''user@zzjbfwqi.shop'' =
     (Ret (Some \<lparr>Email = ''user@zzjbfwqi.shop'', Reachable = ''unknown'',
                 Syntax = \<lparr>Username = ''user'', SyntaxDomain = ''zzjbfwqi.shop'', Valid = True\<rparr>,
                 SMTP = None, Gravatar = None, Suggestion = [], Disposable = True,
                 RoleAccount = False, Free = False, HasMxRecords = False,
                 TLDExists = True\<rparr>, None),
      [Call_ParseAddress ''user@zzjbfwqi.shop'', Call_IsFreeDomain ''zzjbfwqi.shop'',
       Call_IsRoleAccount ''user'', Call_IsDisposable ''zzjbfwqi.shop'',
       Call_TopLevelDomainExists ''zzjbfwqi.shop''])"
proof -
  have p: "ParseAddress exampleEnv NewVerifier (trimLower exampleEnv ''user@zzjbfwqi.shop'')
           = \<lparr>Username = ''user'', SyntaxDomain = ''zzjbfwqi.shop'', Valid = True\<rparr>"
    by (simp add: exampleEnv_def parseAt_def)
  have h1: "Valid (ParseAddress exampleEnv NewVerifier (trimLower exampleEnv ''user@zzjbfwqi.shop''))"
    by (simp add: p)
  have h2: "IsDisposable exampleEnv NewVerifier
              (SyntaxDomain (ParseAddress exampleEnv NewVerifier
                 (trimLower exampleEnv ''user@zzjbfwqi.shop'')))"
    unfolding p by (simp add: exampleEnv_def)
  have d: "domainToASCII exampleEnv ''zzjbfwqi.shop'' = ''zzjbfwqi.shop''"
    by (simp add: exampleEnv_def)
  have h3: "TopLevelDomainDisabled NewVerifier \<or>
            TopLevelDomainExists exampleEnv
              (domainToASCII exampleEnv (SyntaxDomain (ParseAddress exampleEnv NewVerifier
                 (trimLower exampleEnv ''user@zzjbfwqi.shop''))))"
    unfolding p by (simp add: d tld_shop)
  have e: "IsRoleAccount exampleEnv NewVerifier ''user'' = False"
          "IsFreeDomain exampleEnv NewVerifier ''zzjbfwqi.shop'' = False"
          "trimLower exampleEnv ''user@zzjbfwqi.shop'' = ''user@zzjbfwqi.shop''"
          "TopLevelDomainDisabled NewVerifier = False"
    by (simp_all add: exampleEnv_def NewVerifier_def)
  show ?thesis
    using Verify_disposable [OF h1 h2 h3, of exampleSched "Caller 0"]
    unfolding p by (simp add: e d reachableUnknown_def)
qed

text \<open>
  C7. A valid address whose top-level domain does not exist, with the TLD check
  enabled: \<open>Verify\<close> returns a nil result and one error, whose text quotes the
  (ASCII form of the) domain with the unknown top-level domain; no check is started.
\<close>

theorem Verify_unknown_tld:
  assumes "Valid (ParseAddress env v (trimLower env email))"
    and "\<not> TopLevelDomainDisabled v"
    and "\<not> TopLevelDomainExists env
           (domainToASCII env (SyntaxDomain (ParseAddress env v (trimLower env email))))"
  shows "Verify v env sched ctx email =
           (Ret (None,
                 Some (ErrorfTLD
                   (domainToASCII env (SyntaxDomain (ParseAddress env v (trimLower env email)))))),
            [Call_ParseAddress (trimLower env email),
             Call_IsFreeDomain (SyntaxDomain (ParseAddress env v (trimLower env email))),
             Call_IsRoleAccount (Username (ParseAddress env v (trimLower env email))),
             Call_IsDisposable (SyntaxDomain (ParseAddress env v (trimLower env email))),
             Call_TopLevelDomainExists
               (domainToASCII env (SyntaxDomain (ParseAddress env v (trimLower env email))))])
         \<and> message (strconv_Quote env)
             (ErrorfTLD
                (domainToASCII env (SyntaxDomain (ParseAddress env v (trimLower env email)))))
           = ''TLD domain ''
             @ strconv_Quote env
                 (domainToASCII env (SyntaxDomain (ParseAddress env v (trimLower env email))))
             @ '' does not exist''"
  using assms by (simp add: Verify_def zeroResult_def Let_def)

theorem Verify_unknown_tld_witness:
  "Verify NewVerifier exampleEnv exampleSched (Caller 0) ''user@example.testing'' =
     (Ret (None, Some (ErrorfTLD ''example.testing'')),
      [Call_ParseAddress ''user@example.testing'', Call_IsFreeDomain ''example.testing'',
       Call_IsRoleAccount ''user'', Call_IsDisposable ''example.testing'',
       Call_TopLevelDomainExists ''example.testing''])
   \<and> message (strconv_Quote exampleEnv) (ErrorfTLD ''example.testing'')
       = ''TLD domain '' @ [CHR 0x22] @ ''example.testing'' @ [CHR 0x22] @ '' does not exist''"
proof -
  have p: "ParseAddress exampleEnv NewVerifier (trimLower exampleEnv ''user@example.testing'')
           = \<lparr>Username = ''user'', SyntaxDomain = ''example.testing'', Valid = True\<rparr>"
    by (simp add: exampleEnv_def parseAt_def)
  have d: "domainToASCII exampleEnv ''example.testing'' = ''example.testing''"
    by (simp add: exampleEnv_def)
  have h1: "Valid (ParseAddress exampleEnv NewVerifier (trimLower exampleEnv ''user@example.testing''))"
    by (simp add: p)
  have h2: "\<not> TopLevelDomainDisabled NewVerifier"
    by (simp add: NewVerifier_def)
  have h3: "\<not> TopLevelDomainExists exampleEnv
              (domainToASCII exampleEnv (SyntaxDomain (ParseAddress exampleEnv NewVerifier
                 (trimLower exampleEnv ''user@example.testing''))))"
    unfolding p by (simp add: d tld_testing)
  have e: "trimLower exampleEnv ''user@example.testing'' = ''user@example.testing''"
          "strconv_Quote exampleEnv ''example.testing'' = [CHR 0x22] @ ''example.testing'' @ [CHR 0x22]"
    by (simp_all add: exampleEnv_def)
  show ?thesis
    using Verify_unknown_tld [OF h1 h2 h3, of exampleSched "Caller 0"]
    unfolding p by (simp add: e d)
qed

subsection \<open>CheckMX\<close>

text \<open>
  C5, as stated, fails: when the lookup succeeds and returns no mail exchanger,
  \<open>CheckMX\<close> does not fail. It returns a result with \<open>HasMXRecord = false\<close> and a nil
  error.
\<close>

theorem CheckMX_zero_records_counterexample:
  "LookupMX exampleEnv (Caller 0) (domainToASCII exampleEnv ''nomx.org'') = ([], None)
   \<and> mxCheckEnabled NewVerifier
   \<and> fst (CheckMX NewVerifier exampleEnv (Caller 0) ''nomx.org'')
       = (Some \<lparr>HasMXRecord = False, Records = []\<rparr>, None)"
  by (simp add: CheckMX_def exampleEnv_def NewVerifier_def)

text \<open>
  C5, amended. With the MX check enabled, \<open>CheckMX\<close> fails exactly when the lookup
  returns an error and no record, and then with the error of the lookup, unchanged, and
  a nil result (this covers "no such host"); in every other case, a successful lookup
  with zero records included, it returns the records with
  \<open>HasMXRecord = (there is a record)\<close> and a nil error.
\<close>

theorem CheckMX_outcome:
  assumes "mxCheckEnabled v"
  shows "fst (CheckMX v env ctx domain) =
           (if snd (LookupMX env ctx (domainToASCII env domain)) \<noteq> None
               \<and> fst (LookupMX env ctx (domainToASCII env domain)) = []
            then (None, snd (LookupMX env ctx (domainToASCII env domain)))
            else (Some \<lparr>HasMXRecord = (fst (LookupMX env ctx (domainToASCII env domain)) \<noteq> []),
                        Records = fst (LookupMX env ctx (domainToASCII env domain))\<rparr>, None))"
  using assms by (simp add: CheckMX_def Let_def)

theorem CheckMX_outcome_witness:
  "mxCheckEnabled NewVerifier
   \<and> fst (CheckMX NewVerifier exampleEnv (Caller 0) ''missing.org'')
       = (None, Some (External ''no such host''))
   \<and> fst (CheckMX NewVerifier exampleEnv (Caller 0) ''example.com'')
       = (Some \<lparr>HasMXRecord = True, Records = [\<lparr>Host = ''mx.example.com'', Pref = 10\<rparr>]\<rparr>, None)"
proof -
  have h: "mxCheckEnabled NewVerifier" by (simp add: NewVerifier_def)
  show ?thesis
    using h CheckMX_outcome [OF h, of exampleEnv "Caller 0" "''missing.org''"]
      CheckMX_outcome [OF h, of exampleEnv "Caller 0" "''example.com''"]
    by (simp add: exampleEnv_def)
qed

subsection \<open>Invariants of the two runners\<close>

lemma noGroup_Go_invariant:
  assumes step: "\<And>ret ret' e cs tr. P ret tr \<Longrightarrow> f ret = (Ret (ret', e), cs) \<Longrightarrow> P ret' (tr @ cs)"
    and "noGroup_Go f st = (Ret (ret', e'), tr')"
    and init: "\<And>ret e tr. st = (Ret (ret, e), tr) \<Longrightarrow> P ret tr"
  shows "P ret' tr'"
proof -
  obtain r tr where st: "st = (r, tr)" by (cases st)
  show ?thesis
  proof (cases r)
    case Panic
    with st assms(2) show ?thesis by (simp add: noGroup_Go_def)
  next
    case (Ret x)
    obtain ret g where x: "x = (ret, g)" by (cases x)
    have P0: "P ret tr" using init st Ret x by simp
    obtain o1 cs where f: "f ret = (o1, cs)" by (cases "f ret")
    show ?thesis
    proof (cases o1)
      case Panic
      with st Ret x f assms(2) show ?thesis by (simp add: noGroup_Go_def)
    next
      case (Ret y)
      obtain ret2 e2 where y: "y = (ret2, e2)" by (cases y)
      have "P ret2 (tr @ cs)" using step [OF P0] f Ret y by simp
      moreover have "ret' = ret2 \<and> tr' = tr @ cs"
        using st \<open>r = Ret x\<close> x f Ret y assms(2)
        by (cases e2) (simp_all add: noGroup_Go_def)
      ultimately show ?thesis by simp
    qed
  qed
qed

lemma errgroup_run_invariant:
  assumes step: "\<And>c cx ret ret' e cs tr. P ret tr \<Longrightarrow> tasks c cx ret = (Ret (ret', e), cs) \<Longrightarrow> P ret' (tr @ cs)"
  shows "P ret tr \<Longrightarrow> errgroup_run tasks ctx sched (Ret (ret, g), tr) = (Ret (ret', g'), tr')
         \<Longrightarrow> P ret' tr'"
proof (induction sched arbitrary: ret g tr)
  case Nil
  then show ?case by simp
next
  case (Cons a sched)
  obtain c saw where a: "a = (c, saw)" by (cases a)
  obtain o1 cs where t: "tasks c (if saw \<and> g \<noteq> None then Cancelled ctx else ctx) ret = (o1, cs)"
    by (cases "tasks c (if saw \<and> g \<noteq> None then Cancelled ctx else ctx) ret")
  show ?case
  proof (cases o1)
    case Panic
    with Cons.prems a t show ?thesis by simp
  next
    case (Ret y)
    obtain ret2 e2 where y: "y = (ret2, e2)" by (cases y)
    have P2: "P ret2 (tr @ cs)" using step [OF Cons.prems(1)] t Ret y by simp
    have "errgroup_run tasks ctx sched (Ret (ret2, if g = None then e2 else g), tr @ cs)
          = (Ret (ret', g'), tr')"
      using Cons.prems(2) a t Ret y by simp
    from Cons.IH [OF P2 this] show ?thesis .
  qed
qed

lemma errgroup_run_returns:
  assumes "\<And>c cx ret. \<exists>ret' e cs. tasks c cx ret = (Ret (ret', e), cs)"
  shows "\<exists>ret' e tr'. errgroup_run tasks ctx sched (Ret (ret, g), tr) = (Ret (ret', e), tr')"
proof (induction sched arbitrary: ret g tr)
  case Nil
  then show ?case by simp
next
  case (Cons a sched)
  obtain c saw where a: "a = (c, saw)" by (cases a)
  obtain ret2 e2 cs where
    "tasks c (if saw \<and> g \<noteq> None then Cancelled ctx else ctx) ret = (Ret (ret2, e2), cs)"
    using assms by blast
  then show ?case using a Cons.IH by simp
qed

subsection \<open>The shape of the four check functions\<close>

lemma CheckMX_never_nil_nil: "fst (CheckMX v env cx d) \<noteq> (None, None)"
  by (simp add: CheckMX_def Let_def)

lemma goCheckMX_shape:
  "(\<exists>e cs. \<forall>ret. goCheckMX v env sx cx ret = (Ret (ret, Some e), cs))
   \<or> (\<exists>b cs. \<forall>ret. goCheckMX v env sx cx ret = (Ret (ret\<lparr>HasMxRecords := b\<rparr>, None), cs))"
proof -
  obtain m e cs where c: "CheckMX v env cx (SyntaxDomain sx) = ((m, e), cs)"
    by (metis surj_pair)
  show ?thesis
  proof (cases e)
    case (Some x)
    with c show ?thesis by (cases m) (auto simp add: goCheckMX_def)
  next
    case None
    with c CheckMX_never_nil_nil [of v env cx "SyntaxDomain sx"] obtain mx where "m = Some mx"
      by (cases m) auto
    with c None show ?thesis by (auto simp add: goCheckMX_def)
  qed
qed

lemma goCheckSMTP_shape:
  "(\<exists>e cs. \<forall>ret. goCheckSMTP v env sx cx ret = (Ret (ret, Some e), cs))
   \<or> (\<exists>cs. smtpCheckEnabled v \<and> (\<forall>ret. goCheckSMTP v env sx cx ret = (Panic, cs)))
   \<or> (\<exists>s r cs. calculateReachable v s = Ret r
         \<and> (\<forall>ret. goCheckSMTP v env sx cx ret = (Ret (ret\<lparr>SMTP := s, Reachable := r\<rparr>, None), cs)))"
proof -
  obtain s e where c: "CheckSMTP env v cx (SyntaxDomain sx) (Username sx) = (s, e)"
    by (metis surj_pair)
  show ?thesis
  proof (cases e)
    case (Some x)
    with c show ?thesis by (simp add: goCheckSMTP_def)
  next
    case None
    show ?thesis
    proof (cases "calculateReachable v s")
      case Panic
      then have "smtpCheckEnabled v"
        by (auto simp: calculateReachable_def split: if_splits)
      with c None Panic show ?thesis by (simp add: goCheckSMTP_def)
    next
      case (Ret r)
      with c None show ?thesis by (auto simp add: goCheckSMTP_def)
    qed
  qed
qed

lemma goCheckGravatar_shape:
  "(\<exists>e cs. \<forall>ret. goCheckGravatar v env email cx ret = (Ret (ret, Some e), cs))
   \<or> (\<exists>g cs. \<forall>ret. goCheckGravatar v env email cx ret = (Ret (ret\<lparr>Gravatar := g\<rparr>, None), cs))"
proof -
  obtain g e cs where c: "CheckGravatar v env cx email = ((g, e), cs)"
    by (metis surj_pair)
  then show ?thesis by (cases e) (auto simp add: goCheckGravatar_def)
qed

lemma goSuggestDomain_shape:
  "(\<forall>ret. goSuggestDomain v env sx cx ret = (Ret (ret, None), []))
   \<or> (\<exists>x cs. \<forall>ret. goSuggestDomain v env sx cx ret = (Ret (ret\<lparr>Suggestion := x\<rparr>, None), cs))"
  by (cases "domainSuggestEnabled v") (auto simp add: goSuggestDomain_def)

lemma runChecks_noGroup_as_tasks:
  "runChecks_noGroup v env ctx sx email st =
     noGroup_Go (checkTask v env sx email SuggestCheck ctx)
       (noGroup_Go (checkTask v env sx email GravatarCheck ctx)
          (noGroup_Go (checkTask v env sx email SMTPCheck ctx)
             (noGroup_Go (checkTask v env sx email MXCheck ctx) (Ret (fst st, None), snd st))))"
  by (simp add: runChecks_noGroup_def checkTask_def)

lemma Verify_checks_path:
  assumes "Valid (ParseAddress env v (trimLower env email))"
    and "TopLevelDomainDisabled v \<or>
         TopLevelDomainExists env
           (domainToASCII env (SyntaxDomain (ParseAddress env v (trimLower env email))))"
    and "\<not> IsDisposable env v (SyntaxDomain (ParseAddress env v (trimLower env email)))"
  shows "Verify v env sched ctx email =
           returnResult
             (if 1 < enabledOptions v
              then runChecks_errgroup v env sched ctx (ParseAddress env v (trimLower env email))
                     (trimLower env email) (beforeChecks v env email)
              else runChecks_noGroup v env ctx (ParseAddress env v (trimLower env email))
                     (trimLower env email) (beforeChecks v env email))"
  using assms by (auto simp add: Verify_def beforeChecks_def zeroResult_def Let_def)

subsection \<open>SMTP checking disabled\<close>

lemma checkTask_smtp_disabled:
  assumes "\<not> smtpCheckEnabled v"
  shows "\<exists>ret' e cs. checkTask v env sx email c cx ret = (Ret (ret', e), cs)
           \<and> (Reachable ret = reachableUnknown \<longrightarrow> Reachable ret' = reachableUnknown)"
proof (cases c)
  case MXCheck
  then show ?thesis using goCheckMX_shape [of v env sx cx]
    by (auto simp: checkTask_def)
next
  case SMTPCheck
  have "\<And>s. calculateReachable v s = Ret reachableUnknown"
    using assms by (simp add: calculateReachable_def)
  then show ?thesis using SMTPCheck goCheckSMTP_shape [of v env sx cx] assms
    by (auto simp: checkTask_def)
next
  case GravatarCheck
  then show ?thesis using goCheckGravatar_shape [of v env email cx]
    by (auto simp: checkTask_def)
next
  case SuggestCheck
  then show ?thesis using goSuggestDomain_shape [of v env sx cx]
    by (auto simp: checkTask_def)
qed

lemma runChecks_errgroup_smtp_disabled:
  assumes "\<not> smtpCheckEnabled v" and "Reachable ret = reachableUnknown"
  shows "\<exists>ret' e tr'. runChecks_errgroup v env sched ctx sx email (ret, tr) = (Ret (ret', e), tr')
           \<and> Reachable ret' = reachableUnknown"
proof -
  obtain ret' e tr' where
    r: "errgroup_run (checkTask v env sx email) ctx sched (Ret (ret, None), tr) = (Ret (ret', e), tr')"
    using errgroup_run_returns [of "checkTask v env sx email"] checkTask_smtp_disabled [OF assms(1)]
    by meson
  have step: "Reachable ret' = reachableUnknown"
    if "Reachable ret = reachableUnknown" "checkTask v env sx email c cx ret = (Ret (ret', e), cs)"
    for c cx ret ret' e cs and tr :: "call list"
    using checkTask_smtp_disabled [OF assms(1), of env sx email c cx ret] that by auto
  have "Reachable ret' = reachableUnknown"
    by (rule errgroup_run_invariant
      [where P = "\<lambda>ret tr. Reachable ret = reachableUnknown"
         and tasks = "checkTask v env sx email", OF _ assms(2) r]) (rule step)
  with r show ?thesis by (simp add: runChecks_errgroup_def)
qed

lemma noGroup_Go_smtp_disabled:
  assumes "\<not> smtpCheckEnabled v"
    and "st = (Ret (ret, g), tr)" and "Reachable ret = reachableUnknown"
  shows "\<exists>ret' e tr'. noGroup_Go (checkTask v env sx email c cx) st = (Ret (ret', e), tr')
           \<and> Reachable ret' = reachableUnknown"
proof -
  obtain ret' e cs where t: "checkTask v env sx email c cx ret = (Ret (ret', e), cs)"
    and "Reachable ret' = reachableUnknown"
    using checkTask_smtp_disabled [OF assms(1), of env sx email c cx ret] assms(3) by blast
  then show ?thesis using assms(2) by (cases e) (simp_all add: noGroup_Go_def)
qed

lemma runChecks_noGroup_smtp_disabled:
  assumes "\<not> smtpCheckEnabled v" and "Reachable ret = reachableUnknown"
  shows "\<exists>ret' e tr'. runChecks_noGroup v env ctx sx email (ret, tr) = (Ret (ret', e), tr')
           \<and> Reachable ret' = reachableUnknown"
proof -
  note step = noGroup_Go_smtp_disabled [OF assms(1), of _ _ _ _ env sx email _ ctx]
  obtain r1 e1 t1 where
    1: "noGroup_Go (checkTask v env sx email MXCheck ctx) (Ret (ret, None), tr) = (Ret (r1, e1), t1)"
    and p1: "Reachable r1 = reachableUnknown"
    using step [OF refl assms(2)] by blast
  obtain r2 e2 t2 where
    2: "noGroup_Go (checkTask v env sx email SMTPCheck ctx) (Ret (r1, e1), t1) = (Ret (r2, e2), t2)"
    and p2: "Reachable r2 = reachableUnknown"
    using step [OF refl p1] by blast
  obtain r3 e3 t3 where
    3: "noGroup_Go (checkTask v env sx email GravatarCheck ctx) (Ret (r2, e2), t2) = (Ret (r3, e3), t3)"
    and p3: "Reachable r3 = reachableUnknown"
    using step [OF refl p2] by blast
  obtain r4 e4 t4 where
    4: "noGroup_Go (checkTask v env sx email SuggestCheck ctx) (Ret (r3, e3), t3) = (Ret (r4, e4), t4)"
    and p4: "Reachable r4 = reachableUnknown"
    using step [OF refl p3] by blast
  show ?thesis using 1 2 3 4 p4 by (simp add: runChecks_noGroup_as_tasks)
qed

text \<open>
  C4. With SMTP checking disabled, every call of \<open>Verify\<close> returns (it does not
  panic), under either runner and every schedule, and a result it returns has
  reachability \<open>unknown\<close>, which is neither \<open>yes\<close> nor \<open>no\<close>: on the
  invalid-syntax path, the disposable path, and after the checks, failed or not. (The
  unknown-TLD path returns no result.)
\<close>

theorem Verify_smtp_disabled_unknown:
  assumes "\<not> smtpCheckEnabled v"
  shows "\<exists>r e tr. Verify v env sched ctx email = (Ret (r, e), tr)
           \<and> (case r of
                None \<Rightarrow> True
              | Some ret \<Rightarrow> Reachable ret = reachableUnknown \<and> Reachable ret \<noteq> reachableYes
                            \<and> Reachable ret \<noteq> reachableNo)"
proof -
  have ne: "reachableUnknown \<noteq> reachableYes" "reachableUnknown \<noteq> reachableNo"
    by (simp_all add: reachableUnknown_def reachableYes_def reachableNo_def)
  let ?sx = "ParseAddress env v (trimLower env email)"
  have b: "Reachable (fst (beforeChecks v env email)) = reachableUnknown"
    by (simp add: beforeChecks_def Let_def)
  consider (invalid) "\<not> Valid ?sx"
    | (tld) "Valid ?sx" "\<not> TopLevelDomainDisabled v"
        "\<not> TopLevelDomainExists env (domainToASCII env (SyntaxDomain ?sx))"
    | (disposable) "Valid ?sx"
        "TopLevelDomainDisabled v \<or> TopLevelDomainExists env (domainToASCII env (SyntaxDomain ?sx))"
        "IsDisposable env v (SyntaxDomain ?sx)"
    | (checks) "Valid ?sx"
        "TopLevelDomainDisabled v \<or> TopLevelDomainExists env (domainToASCII env (SyntaxDomain ?sx))"
        "\<not> IsDisposable env v (SyntaxDomain ?sx)"
    by blast
  then show ?thesis
  proof cases
    case invalid
    then show ?thesis by (simp add: Verify_def zeroResult_def Let_def ne)
  next
    case tld
    then show ?thesis by (simp add: Verify_def zeroResult_def Let_def)
  next
    case disposable
    then show ?thesis by (auto simp add: Verify_def zeroResult_def Let_def ne)
  next
    case checks
    obtain ret tr0 where bc: "beforeChecks v env email = (ret, tr0)"
      by (cases "beforeChecks v env email")
    with b have r: "Reachable ret = reachableUnknown" by simp
    let ?run = "if 1 < enabledOptions v
        then runChecks_errgroup v env sched ctx ?sx (trimLower env email) (ret, tr0)
        else runChecks_noGroup v env ctx ?sx (trimLower env email) (ret, tr0)"
    obtain ret' e tr' where run: "?run = (Ret (ret', e), tr')"
      and r': "Reachable ret' = reachableUnknown"
      using runChecks_errgroup_smtp_disabled [OF assms r, of env sched ctx ?sx "trimLower env email" tr0]
        runChecks_noGroup_smtp_disabled [OF assms r, of env ctx ?sx "trimLower env email" tr0]
      by (cases "1 < enabledOptions v") auto
    have "Verify v env sched ctx email = returnResult ?run"
      using Verify_checks_path [OF checks, of sched ctx] bc by simp
    then have "Verify v env sched ctx email = (Ret (Some ret', e), tr')"
      by (simp only: run returnResult_def prod.case run.case)
    then show ?thesis using r' ne by simp
  qed
qed

theorem Verify_smtp_disabled_unknown_witness:
  "\<not> smtpCheckEnabled NewVerifier
   \<and> (\<exists>r e tr. Verify NewVerifier exampleEnv exampleSched (Caller 0) ''user@example.com''
                  = (Ret (r, e), tr)
         \<and> (case r of
              None \<Rightarrow> True
            | Some ret \<Rightarrow> Reachable ret = reachableUnknown \<and> Reachable ret \<noteq> reachableYes
                          \<and> Reachable ret \<noteq> reachableNo))"
proof -
  have h: "\<not> smtpCheckEnabled NewVerifier" by (simp add: NewVerifier_def)
  show ?thesis
    using h Verify_smtp_disabled_unknown [OF h, of exampleEnv exampleSched "Caller 0" "''user@example.com''"]
    by simp
qed

subsection \<open>Gravatar checking disabled\<close>

lemma CheckGravatar_disabled:
  "\<not> gravatarCheckEnabled v \<Longrightarrow> CheckGravatar v env cx email = ((None, None), [])"
  by (simp add: CheckGravatar_def)

lemma checkTask_gravatar_disabled:
  assumes "\<not> gravatarCheckEnabled v"
    and "checkTask v env sx email c cx ret = (Ret (ret', e), cs)"
  shows "(Gravatar ret = None \<longrightarrow> Gravatar ret' = None) \<and> (\<forall>u. Call_HTTP_Do u \<notin> set cs)"
proof (cases c)
  case MXCheck
  with assms(2) show ?thesis
    by (auto simp: checkTask_def goCheckMX_def CheckMX_def Let_def
        split: if_splits option.splits prod.splits)
next
  case SMTPCheck
  with assms(2) show ?thesis
    by (auto simp: checkTask_def goCheckSMTP_def split: option.splits prod.splits run.splits)
next
  case GravatarCheck
  with assms show ?thesis
    by (auto simp: checkTask_def goCheckGravatar_def CheckGravatar_disabled)
next
  case SuggestCheck
  with assms(2) show ?thesis
    by (auto simp: checkTask_def goSuggestDomain_def split: if_splits)
qed

lemma runChecks_errgroup_gravatar_disabled:
  assumes "\<not> gravatarCheckEnabled v"
    and "Gravatar ret = None \<and> (\<forall>u. Call_HTTP_Do u \<notin> set tr)"
    and "runChecks_errgroup v env sched ctx sx email (ret, tr) = (Ret (ret', e), tr')"
  shows "Gravatar ret' = None \<and> (\<forall>u. Call_HTTP_Do u \<notin> set tr')"
proof -
  have step: "Gravatar r' = None \<and> (\<forall>u. Call_HTTP_Do u \<notin> set (t @ cs))"
    if "Gravatar r = None \<and> (\<forall>u. Call_HTTP_Do u \<notin> set t)"
      "checkTask v env sx email c cx r = (Ret (r', e0), cs)"
    for c cx r r' e0 cs t
    using checkTask_gravatar_disabled [OF assms(1) that(2)] that(1) by auto
  have r: "errgroup_run (checkTask v env sx email) ctx sched (Ret (ret, None), tr) = (Ret (ret', e), tr')"
    using assms(3) by (simp add: runChecks_errgroup_def)
  show ?thesis
    by (rule errgroup_run_invariant
      [where P = "\<lambda>r t. Gravatar r = None \<and> (\<forall>u. Call_HTTP_Do u \<notin> set t)"
         and tasks = "checkTask v env sx email", OF _ assms(2) r]) (rule step)
qed

lemma noGroup_Go_gravatar_disabled:
  assumes "\<not> gravatarCheckEnabled v"
    and "noGroup_Go (checkTask v env sx email c cx) st = (Ret (ret', e'), tr')"
    and "\<And>ret e tr. st = (Ret (ret, e), tr) \<Longrightarrow> Gravatar ret = None \<and> (\<forall>u. Call_HTTP_Do u \<notin> set tr)"
  shows "Gravatar ret' = None \<and> (\<forall>u. Call_HTTP_Do u \<notin> set tr')"
proof -
  have step: "Gravatar r' = None \<and> (\<forall>u. Call_HTTP_Do u \<notin> set (t @ cs))"
    if "Gravatar r = None \<and> (\<forall>u. Call_HTTP_Do u \<notin> set t)"
      "checkTask v env sx email c cx r = (Ret (r', e0), cs)"
    for r r' e0 cs t
    using checkTask_gravatar_disabled [OF assms(1) that(2)] that(1) by auto
  show ?thesis
    by (rule noGroup_Go_invariant
      [where P = "\<lambda>r t. Gravatar r = None \<and> (\<forall>u. Call_HTTP_Do u \<notin> set t)"
         and f = "checkTask v env sx email c cx", OF step assms(2) assms(3)])
qed

lemma runChecks_noGroup_gravatar_disabled:
  assumes "\<not> gravatarCheckEnabled v"
    and "Gravatar ret = None \<and> (\<forall>u. Call_HTTP_Do u \<notin> set tr)"
    and "runChecks_noGroup v env ctx sx email (ret, tr) = (Ret (ret', e), tr')"
  shows "Gravatar ret' = None \<and> (\<forall>u. Call_HTTP_Do u \<notin> set tr')"
proof -
  let ?P = "\<lambda>st. \<forall>r g t. st = (Ret (r, g), t) \<longrightarrow> Gravatar r = None \<and> (\<forall>u. Call_HTTP_Do u \<notin> set t)"
  let ?s0 = "(Ret (ret, None), tr) :: (Result \<times> err option) run \<times> call list"
  let ?s1 = "noGroup_Go (checkTask v env sx email MXCheck ctx) ?s0"
  let ?s2 = "noGroup_Go (checkTask v env sx email SMTPCheck ctx) ?s1"
  let ?s3 = "noGroup_Go (checkTask v env sx email GravatarCheck ctx) ?s2"
  let ?s4 = "noGroup_Go (checkTask v env sx email SuggestCheck ctx) ?s3"
  have keep: "?P (noGroup_Go (checkTask v env sx email c ctx) st)" if "?P st" for c st
    using noGroup_Go_gravatar_disabled [OF assms(1), of env sx email c ctx st] that
    by (intro allI impI) blast
  have "?P ?s0" using assms(2) by simp
  then have "?P ?s4" by (intro keep)
  moreover have "?s4 = (Ret (ret', e), tr')"
    using assms(3) by (simp add: runChecks_noGroup_as_tasks)
  ultimately show ?thesis by simp
qed

text \<open>
  C10. With gravatar checking disabled, \<open>CheckGravatar\<close> returns a nil gravatar and
  a nil error and performs no network operation; and every result \<open>Verify\<close> returns
  in that configuration has a nil \<open>Gravatar\<close> field, no HTTP request having been
  made during the call.
\<close>

theorem CheckGravatar_disabled_nil_nil:
  assumes "\<not> gravatarCheckEnabled v"
  shows "CheckGravatar v env ctx email = ((None, None), [])
         \<and> (\<forall>ret e tr. Verify v env sched ctx email = (Ret (Some ret, e), tr)
               \<longrightarrow> Gravatar ret = None \<and> (\<forall>u. Call_HTTP_Do u \<notin> set tr))"
proof (rule conjI)
  show "CheckGravatar v env ctx email = ((None, None), [])"
    using assms by (rule CheckGravatar_disabled)
next
  have "Gravatar ret = None \<and> (\<forall>u. Call_HTTP_Do u \<notin> set tr)"
    if V: "Verify v env sched ctx email = (Ret (Some ret, e), tr)" for ret e tr
  proof -
  let ?sx = "ParseAddress env v (trimLower env email)"
  have b: "Gravatar (fst (beforeChecks v env email)) = None
           \<and> (\<forall>u. Call_HTTP_Do u \<notin> set (snd (beforeChecks v env email)))"
    by (simp add: beforeChecks_def Let_def)
  consider (invalid) "\<not> Valid ?sx"
    | (tld) "Valid ?sx" "\<not> TopLevelDomainDisabled v"
        "\<not> TopLevelDomainExists env (domainToASCII env (SyntaxDomain ?sx))"
    | (disposable) "Valid ?sx"
        "TopLevelDomainDisabled v \<or> TopLevelDomainExists env (domainToASCII env (SyntaxDomain ?sx))"
        "IsDisposable env v (SyntaxDomain ?sx)"
    | (checks) "Valid ?sx"
        "TopLevelDomainDisabled v \<or> TopLevelDomainExists env (domainToASCII env (SyntaxDomain ?sx))"
        "\<not> IsDisposable env v (SyntaxDomain ?sx)"
    by blast
  then show ?thesis
  proof cases
    case invalid
    with V show ?thesis by (auto simp add: Verify_def zeroResult_def Let_def)
  next
    case tld
    with V show ?thesis by (simp add: Verify_def zeroResult_def Let_def)
  next
    case disposable
    with V show ?thesis by (auto simp add: Verify_def zeroResult_def Let_def split: if_splits)
  next
    case checks
    obtain ret0 tr0 where bc: "beforeChecks v env email = (ret0, tr0)"
      by (cases "beforeChecks v env email")
    with b have p0: "Gravatar ret0 = None \<and> (\<forall>u. Call_HTTP_Do u \<notin> set tr0)" by simp
    let ?run = "if 1 < enabledOptions v
        then runChecks_errgroup v env sched ctx ?sx (trimLower env email) (ret0, tr0)
        else runChecks_noGroup v env ctx ?sx (trimLower env email) (ret0, tr0)"
    have "Verify v env sched ctx email = returnResult ?run"
      using Verify_checks_path [OF checks, of sched ctx] bc by simp
    with V have "returnResult ?run = (Ret (Some ret, e), tr)" by simp
    then have run: "?run = (Ret (ret, e), tr)"
      by (auto simp: returnResult_def split: prod.splits run.splits)
    show ?thesis
    proof (cases "1 < enabledOptions v")
      case True
      with run show ?thesis
        using runChecks_errgroup_gravatar_disabled [OF assms p0] by simp
    next
      case False
      with run show ?thesis
        using runChecks_noGroup_gravatar_disabled [OF assms p0] by simp
    qed
  qed
  qed
  then show "\<forall>ret e tr. Verify v env sched ctx email = (Ret (Some ret, e), tr)
               \<longrightarrow> Gravatar ret = None \<and> (\<forall>u. Call_HTTP_Do u \<notin> set tr)"
    by blast
qed

theorem CheckGravatar_disabled_nil_nil_witness:
  "\<not> gravatarCheckEnabled NewVerifier
   \<and> CheckGravatar NewVerifier exampleEnv (Caller 0) ''user@example.com'' = ((None, None), [])
   \<and> (\<exists>ret tr. Verify NewVerifier exampleEnv exampleSched (Caller 0) ''user@example.com''
                  = (Ret (Some ret, None), tr)
         \<and> Gravatar ret = None \<and> HasMxRecords ret \<and> Call_HTTP_Do ''x'' \<notin> set tr)"
proof -
  have h: "\<not> gravatarCheckEnabled NewVerifier" by (simp add: NewVerifier_def)
  have v: "\<exists>ret tr. Verify NewVerifier exampleEnv exampleSched (Caller 0) ''user@example.com''
                  = (Ret (Some ret, None), tr) \<and> HasMxRecords ret"
    by (simp add: Verify_example_com)
  show ?thesis
    using h v CheckGravatar_disabled_nil_nil [OF h, of exampleEnv "Caller 0" "''user@example.com''" exampleSched]
    by auto
qed

subsection \<open>More than one failing check\<close>

text \<open>
  C2 on a concrete call. The MX check and the gravatar check are enabled, so \<open>Verify\<close>
  uses the concurrent runner; the lookup of the domain fails and the HTTP request
  fails. \<open>Verify\<close> returns the partially filled result together with the error of
  the check that returned first, alone: the failure of the other check is not part of
  the returned error, whichever of the two returns first. The sequential runner, given
  two failing functions, joins both errors.
\<close>

theorem Verify_two_failures_first_error_only:
  "enabledOptions (NewVerifier\<lparr>gravatarCheckEnabled := True\<rparr>) = 2
   \<and> fst (CheckMX (NewVerifier\<lparr>gravatarCheckEnabled := True\<rparr>) exampleEnv (Caller 0) ''example.org'')
       = (None, Some (External ''no such host''))
   \<and> fst (CheckGravatar (NewVerifier\<lparr>gravatarCheckEnabled := True\<rparr>) exampleEnv (Caller 0)
            ''user@example.org'')
       = (None, Some (External ''connection refused''))
   \<and> fst (Verify (NewVerifier\<lparr>gravatarCheckEnabled := True\<rparr>) exampleEnv
            [(MXCheck, False), (GravatarCheck, False), (SMTPCheck, False), (SuggestCheck, False)]
            (Caller 0) ''user@example.org'')
       = Ret (Some \<lparr>Email = ''user@example.org'', Reachable = ''unknown'',
                    Syntax = \<lparr>Username = ''user'', SyntaxDomain = ''example.org'', Valid = True\<rparr>,
                    SMTP = None, Gravatar = None, Suggestion = [], Disposable = False,
                    RoleAccount = False, Free = False, HasMxRecords = False,
                    TLDExists = True\<rparr>,
              Some (Errorf ''CheckMX failed'' (External ''no such host'')))
   \<and> causes (Errorf ''CheckMX failed'' (External ''no such host''))
       = [Errorf ''CheckMX failed'' (External ''no such host''), External ''no such host'']
   \<and> fst (Verify (NewVerifier\<lparr>gravatarCheckEnabled := True\<rparr>) exampleEnv
            [(GravatarCheck, False), (MXCheck, True), (SMTPCheck, False), (SuggestCheck, False)]
            (Caller 0) ''user@example.org'')
       = Ret (Some \<lparr>Email = ''user@example.org'', Reachable = ''unknown'',
                    Syntax = \<lparr>Username = ''user'', SyntaxDomain = ''example.org'', Valid = True\<rparr>,
                    SMTP = None, Gravatar = None, Suggestion = [], Disposable = False,
                    RoleAccount = False, Free = False, HasMxRecords = False,
                    TLDExists = True\<rparr>,
              Some (Errorf ''CheckGravatar failed'' (External ''connection refused'')))
   \<and> noGroup_Go (\<lambda>ret. (Ret (ret, Some (External ''second'')), []))
         (noGroup_Go (\<lambda>ret. (Ret (ret, Some (External ''first'')), []))
            (Ret (zeroResult, None), []))
       = (Ret (zeroResult, Some (Joined [Joined [External ''first''], External ''second''])), [])"
  by code_simp

subsection \<open>The two runners when at most one check is enabled\<close>



lemma goCheckMX_general:
  "goCheckMX v env sx cx ret =
     (Ret (HasMxRecords_update
             (case fst (CheckMX v env cx (SyntaxDomain sx)) of
                (Some mx, None) \<Rightarrow> (\<lambda>_. HasMXRecord mx) | _ \<Rightarrow> (\<lambda>x. x)) ret,
           map_option (Errorf ''CheckMX failed'') (snd (fst (CheckMX v env cx (SyntaxDomain sx))))),
      Call_CheckMX (SyntaxDomain sx) # snd (CheckMX v env cx (SyntaxDomain sx)))"
proof -
  obtain m e cs where c: "CheckMX v env cx (SyntaxDomain sx) = ((m, e), cs)"
    by (metis surj_pair)
  with CheckMX_never_nil_nil [of v env cx "SyntaxDomain sx"] show ?thesis
    by (cases e; cases m) (simp_all add: goCheckMX_def)
qed

lemma goCheckSMTP_general:
  "goCheckSMTP v env sx cx ret =
     (let s = fst (CheckSMTP env v cx (SyntaxDomain sx) (Username sx));
          e = snd (CheckSMTP env v cx (SyntaxDomain sx) (Username sx))
      in if e = None \<and> calculateReachable v s = Panic
         then (Panic, [Call_CheckSMTP (SyntaxDomain sx) (Username sx)])
         else (Ret (SMTP_update (if e = None then (\<lambda>_. s) else (\<lambda>x. x))
                      (Reachable_update
                         (case (e, calculateReachable v s) of
                            (None, Ret r) \<Rightarrow> (\<lambda>_. r) | _ \<Rightarrow> (\<lambda>x. x)) ret),
                    map_option (Errorf ''CheckSMTP failed'') e),
               [Call_CheckSMTP (SyntaxDomain sx) (Username sx)]))"
proof -
  obtain s e where c: "CheckSMTP env v cx (SyntaxDomain sx) (Username sx) = (s, e)"
    by (metis surj_pair)
  then show ?thesis
    by (cases e; cases "calculateReachable v s") (simp_all add: goCheckSMTP_def)
qed

lemma goCheckGravatar_general:
  "goCheckGravatar v env email cx ret =
     (Ret (Gravatar_update
             (if snd (fst (CheckGravatar v env cx email)) = None
              then (\<lambda>_. fst (fst (CheckGravatar v env cx email))) else (\<lambda>x. x)) ret,
           map_option (Errorf ''CheckGravatar failed'') (snd (fst (CheckGravatar v env cx email)))),
      Call_CheckGravatar email # snd (CheckGravatar v env cx email))"
proof -
  obtain g e cs where c: "CheckGravatar v env cx email = ((g, e), cs)"
    by (metis surj_pair)
  then show ?thesis by (cases e) (simp_all add: goCheckGravatar_def)
qed

lemma goSuggestDomain_general:
  "goSuggestDomain v env sx cx ret =
     (Ret (Suggestion_update
             (if domainSuggestEnabled v then (\<lambda>_. SuggestDomain env v (SyntaxDomain sx))
              else (\<lambda>x. x)) ret, None),
      if domainSuggestEnabled v then [Call_SuggestDomain (SyntaxDomain sx)] else [])"
  by (simp add: goSuggestDomain_def)







subsection \<open>The error of the concurrent runner\<close>

lemma errgroup_run_error_invariant:
  assumes step: "\<And>c cx ret ret' e cs. tasks c cx ret = (Ret (ret', Some e), cs) \<Longrightarrow> Q e"
  shows "errgroup_run tasks ctx sched (Ret (ret, g), tr) = (Ret (ret', Some e'), tr')
         \<Longrightarrow> g = Some e' \<or> Q e'"
proof (induction sched arbitrary: ret g tr)
  case Nil
  then show ?case by simp
next
  case (Cons a sched)
  obtain c saw where a: "a = (c, saw)" by (cases a)
  obtain o1 cs where t: "tasks c (if saw \<and> g \<noteq> None then Cancelled ctx else ctx) ret = (o1, cs)"
    by (cases "tasks c (if saw \<and> g \<noteq> None then Cancelled ctx else ctx) ret")
  show ?case
  proof (cases o1)
    case Panic
    with Cons.prems a t show ?thesis by simp
  next
    case (Ret y)
    obtain ret2 e2 where y: "y = (ret2, e2)" by (cases y)
    have "errgroup_run tasks ctx sched (Ret (ret2, if g = None then e2 else g), tr @ cs)
          = (Ret (ret', Some e'), tr')"
      using Cons.prems a t Ret y by simp
    from Cons.IH [OF this] have "(if g = None then e2 else g) = Some e' \<or> Q e'" .
    then show ?thesis
    proof
      assume h: "(if g = None then e2 else g) = Some e'"
      show ?thesis
      proof (cases g)
        case None
        with h have "e2 = Some e'" by simp
        with t Ret y have "Q e'" using step by blast
        then show ?thesis by simp
      next
        case (Some x)
        with h show ?thesis by simp
      qed
    next
      assume "Q e'"
      then show ?thesis by simp
    qed
  qed
qed

lemma checkTask_error_form:
  assumes "checkTask v env sx email c cx ret = (Ret (ret', Some e), cs)"
  shows "\<exists>p x. e = Errorf p x
           \<and> (p = ''CheckMX failed'' \<or> p = ''CheckSMTP failed'' \<or> p = ''CheckGravatar failed'')"
proof (cases c)
  case MXCheck
  with assms show ?thesis
    by (auto simp: checkTask_def goCheckMX_general)
next
  case SMTPCheck
  with assms show ?thesis
    by (auto simp: checkTask_def goCheckSMTP_general Let_def split: if_splits)
next
  case GravatarCheck
  with assms show ?thesis
    by (auto simp: checkTask_def goCheckGravatar_general)
next
  case SuggestCheck
  with assms show ?thesis
    by (auto simp: checkTask_def goSuggestDomain_general)
qed

text \<open>
  Whatever the schedule, a non-nil error returned by the concurrent runner is the error
  of exactly one check, wrapped once by \<open>fmt.Errorf\<close>: it is never a join of
  several failures.
\<close>

lemma runChecks_errgroup_single_error:
  assumes "runChecks_errgroup v env sched ctx sx email st = (Ret (ret', Some e), tr')"
  shows "\<exists>p x. e = Errorf p x
           \<and> (p = ''CheckMX failed'' \<or> p = ''CheckSMTP failed'' \<or> p = ''CheckGravatar failed'')"
proof -
  have r: "errgroup_run (checkTask v env sx email) ctx sched (Ret (fst st, None), snd st)
           = (Ret (ret', Some e), tr')"
    using assms by (simp add: runChecks_errgroup_def)
  have "None = Some e \<or> (\<exists>p x. e = Errorf p x
           \<and> (p = ''CheckMX failed'' \<or> p = ''CheckSMTP failed'' \<or> p = ''CheckGravatar failed''))"
    by (rule errgroup_run_error_invariant [where tasks = "checkTask v env sx email", OF _ r])
       (rule checkTask_error_form)
  then show ?thesis by simp
qed

subsection \<open>The top-level domain check\<close>

lemma utf8_first_bounds:
  "utf8_first b = Some (sz, lo, hi) \<Longrightarrow> 2 \<le> sz \<and> sz \<le> 4 \<and> 0x80 \<le> lo \<and> hi \<le> 0xBF"
  by (auto simp: utf8_first_def split: if_splits)

lemma DecodeRuneInString_ascii:
  "b < 0x80 \<Longrightarrow> DecodeRuneInString (b # t) = (b, 1)"
  by (simp add: DecodeRuneInString_def)

lemma DecodeRuneInString_multi:
  assumes "\<not> b < 0x80" and "utf8_first b = Some (sz, lo, hi)"
  shows "DecodeRuneInString (b # t) =
           (if length (b # t) < sz then (RuneError, 1)
            else if (b # t) ! 1 < lo \<or> hi < (b # t) ! 1 then (RuneError, 1)
            else if sz \<le> 2 then ((b mod 32) * 64 + (b # t) ! 1 mod 64, 2)
            else if (b # t) ! 2 < 0x80 \<or> 0xBF < (b # t) ! 2 then (RuneError, 1)
            else if sz \<le> 3 then
              ((b mod 16) * 4096 + ((b # t) ! 1 mod 64) * 64 + (b # t) ! 2 mod 64, 3)
            else if (b # t) ! 3 < 0x80 \<or> 0xBF < (b # t) ! 3 then (RuneError, 1)
            else ((b mod 8) * 262144 + ((b # t) ! 1 mod 64) * 4096 + ((b # t) ! 2 mod 64) * 64
                   + (b # t) ! 3 mod 64, 4))"
  using assms by (simp add: DecodeRuneInString_def)

lemma DecodeRuneInString_width_le:
  "snd (DecodeRuneInString s) \<le> length s"
proof (cases s)
  case Nil
  then show ?thesis by (simp add: DecodeRuneInString_def)
next
  case (Cons b t)
  show ?thesis
  proof (cases "b < 0x80")
    case True
    with Cons show ?thesis by (simp add: DecodeRuneInString_ascii)
  next
    case False
    show ?thesis
    proof (cases "utf8_first b")
      case None
      with Cons False show ?thesis by (simp add: DecodeRuneInString_def)
    next
      case (Some x)
      obtain sz lo hi where x: "x = (sz, lo, hi)" by (cases x)
      from utf8_first_bounds [of b sz lo hi] Some x have "sz = 2 \<or> sz = 3 \<or> sz = 4" by auto
      then show ?thesis
        unfolding Cons DecodeRuneInString_multi [OF False Some [unfolded x]]
        by (elim disjE) (simp_all add: Suc_le_eq)
    qed
  qed
qed

lemma mod_in_block:
  fixes b :: nat
  assumes "q * n \<le> b" and "b < Suc q * n"
  shows "b mod n = b - q * n"
proof -
  have "b div n = q"
    by (rule div_nat_eqI) (use assms in \<open>simp_all add: mult.commute\<close>)
  then show ?thesis by (simp add: modulo_nat_def)
qed

lemma utf8_first_lead:
  assumes "utf8_first b = Some (sz, lo, hi)"
  shows "(sz = 2 \<and> 2 \<le> b mod 32) \<or> (sz = 3 \<and> (1 \<le> b mod 16 \<or> 0xA0 \<le> lo))
         \<or> (sz = 4 \<and> (1 \<le> b mod 8 \<or> 0x90 \<le> lo))"
proof -
  consider "0xC2 \<le> b \<and> b \<le> 0xDF \<and> sz = 2" | "b = 0xE0 \<and> sz = 3 \<and> lo = 0xA0"
    | "0xE1 \<le> b \<and> b \<le> 0xEF \<and> sz = 3" | "b = 0xF0 \<and> sz = 4 \<and> lo = 0x90"
    | "0xF1 \<le> b \<and> b \<le> 0xF4 \<and> sz = 4"
    using assms unfolding utf8_first_def by (simp split: if_splits)
  then show ?thesis
  proof cases
    case 1
    then have "b mod 32 = b - 6 * 32" by (intro mod_in_block) simp_all
    with 1 show ?thesis by simp arith
  next
    case 2
    then show ?thesis by simp
  next
    case 3
    then have "b mod 16 = b - 14 * 16" by (intro mod_in_block) simp_all
    with 3 show ?thesis by simp arith
  next
    case 4
    then show ?thesis by simp
  next
    case 5
    then have "b mod 8 = b - 30 * 8" by (intro mod_in_block) simp_all
    with 5 show ?thesis by simp arith
  qed
qed

lemma DecodeRuneInString_nonascii:
  assumes "\<not> b < 0x80"
  shows "0x80 \<le> fst (DecodeRuneInString (b # t))"
proof (cases "utf8_first b")
  case None
  with assms show ?thesis by (simp add: DecodeRuneInString_def RuneError_def)
next
  case (Some x)
  obtain sz lo hi where x: "x = (sz, lo, hi)" by (cases x)
  note lead = utf8_first_lead [of b sz lo hi] and bnd = utf8_first_bounds [of b sz lo hi]
  note dec = DecodeRuneInString_multi [OF assms Some [unfolded x], of t]
  have cont: "y mod 64 = y - 2 * 64" if "0x80 \<le> y" "y \<le> 0xBF" for y :: nat
    using that by (intro mod_in_block) simp_all
  from bnd Some x have "sz = 2 \<or> sz = 3 \<or> sz = 4" by auto
  then show ?thesis
  proof (elim disjE)
    assume sz: "sz = 2"
    with lead Some x have "128 \<le> (b mod 32) * 64" by simp
    then show ?thesis unfolding dec sz by (simp add: RuneError_def)
  next
    assume sz: "sz = 3"
    have "128 \<le> (b mod 16) * 4096 + (y mod 64) * 64" if "lo \<le> y" "y \<le> hi" for y
    proof -
      from sz lead Some x have "1 \<le> b mod 16 \<or> 0xA0 \<le> lo" by simp
      then show ?thesis
      proof
        assume "1 \<le> b mod 16"
        then have "4096 \<le> (b mod 16) * 4096" by simp
        then show ?thesis by simp
      next
        assume "0xA0 \<le> lo"
        with that bnd Some x have "y mod 64 = y - 2 * 64" "0xA0 \<le> y" by (simp_all add: cont)
        then show ?thesis by simp
      qed
    qed
    from this [of "(b # t) ! 1"] show ?thesis
      unfolding dec sz by (auto simp add: RuneError_def not_less)
  next
    assume sz: "sz = 4"
    have "128 \<le> (b mod 8) * 262144 + (y mod 64) * 4096" if "lo \<le> y" "y \<le> hi" for y
    proof -
      from sz lead Some x have "1 \<le> b mod 8 \<or> 0x90 \<le> lo" by simp
      then show ?thesis
      proof
        assume "1 \<le> b mod 8"
        then have "262144 \<le> (b mod 8) * 262144" by simp
        then show ?thesis by simp
      next
        assume "0x90 \<le> lo"
        with that bnd Some x have "y mod 64 = y - 2 * 64" "0x90 \<le> y" by (simp_all add: cont)
        then show ?thesis by simp
      qed
    qed
    from this [of "(b # t) ! 1"] show ?thesis
      unfolding dec sz by (auto simp add: RuneError_def not_less)
  qed
qed

lemma DecodeRuneInString_append_dot:
  assumes "u \<noteq> []"
  shows "DecodeRuneInString (u @ 0x2E # v) = DecodeRuneInString u"
proof -
  obtain b t where u: "u = b # t" using assms by (cases u) auto
  show ?thesis
  proof (cases "b < 0x80")
    case True
    then show ?thesis by (simp add: u DecodeRuneInString_ascii)
  next
    case False
    show ?thesis
    proof (cases "utf8_first b")
      case None
      with False show ?thesis by (simp add: u DecodeRuneInString_def)
    next
      case (Some x)
      obtain sz lo hi where x: "x = (sz, lo, hi)" by (cases x)
      note bnd = utf8_first_bounds [of b sz lo hi]
      note d1 = DecodeRuneInString_multi [OF False Some [unfolded x], of "t @ 0x2E # v"]
      note d2 = DecodeRuneInString_multi [OF False Some [unfolded x], of t]
      from bnd Some x have sz: "sz = 2 \<or> sz = 3 \<or> sz = 4" and lo: "0x80 \<le> lo" by auto
      have dot: "\<not> lo \<le> 0x2E" "(0x2E :: nat) < 0x80" using lo by simp_all
      consider "t = []" | a where "t = [a]" | a c where "t = [a, c]"
        | a c e w where "t = a # c # e # w"
        by (cases t; cases "tl t"; cases "tl (tl t)") auto
      then show ?thesis
      proof cases
        case 1
        from sz show ?thesis
          unfolding u append_Cons d1 d2 unfolding 1 using dot by (elim disjE) (simp_all add: not_less)
      next
        case 2
        from sz show ?thesis
          unfolding u append_Cons d1 d2 unfolding 2 using dot by (elim disjE) (simp_all add: not_less)
      next
        case 3
        from sz show ?thesis
          unfolding u append_Cons d1 d2 unfolding 3 using dot by (elim disjE) (simp_all add: not_less)
      next
        case 4
        from sz show ?thesis
          unfolding u append_Cons d1 d2 unfolding 4 using dot by (elim disjE) (simp_all add: not_less)
      qed
    qed
  qed
qed

lemma EncodeRune_bytes:
  assumes "x \<in> set (EncodeRune r)"
  shows "x < 256 \<and> (x = 0x2E \<longrightarrow> r = 0x2E)"
proof -
  have m: "k mod 64 < 64" for k :: nat by simp
  consider (one) "r \<le> 0x7F" | (two) "0x7F < r" "r \<le> 0x7FF"
    | (bad) "0x7FF < r" "0x10FFFF < r \<or> (0xD800 \<le> r \<and> r \<le> 0xDFFF)"
    | (three) "0x7FF < r" "r \<le> 0xFFFF" "\<not> (0x10FFFF < r \<or> (0xD800 \<le> r \<and> r \<le> 0xDFFF))"
    | (four) "0xFFFF < r" "r \<le> 0x10FFFF"
    by linarith
  then show ?thesis
  proof cases
    case one
    with assms show ?thesis by (simp add: EncodeRune_def)
  next
    case two
    then have "r div 64 < 32" by (simp add: less_mult_imp_div_less)
    with two assms m [of r] show ?thesis by (auto simp add: EncodeRune_def)
  next
    case bad
    with assms show ?thesis by (auto simp add: EncodeRune_def)
  next
    case three
    then have "r div 4096 < 16" by (simp add: less_mult_imp_div_less)
    with three assms m [of r] m [of "r div 64"] show ?thesis by (auto simp add: EncodeRune_def)
  next
    case four
    then have "r div 262144 < 5" by (simp add: less_mult_imp_div_less)
    with four assms m [of r] m [of "r div 64"] m [of "r div 4096"] show ?thesis
      by (auto simp add: EncodeRune_def)
  qed
qed

lemma strings_Map_Nil: "strings_Map f [] = []"
  by (subst strings_Map.simps) simp

lemma strings_Map_step:
  "s \<noteq> [] \<Longrightarrow> strings_Map f s =
     EncodeRune (f (fst (DecodeRuneInString s))) @ strings_Map f (drop (snd (DecodeRuneInString s)) s)"
  by (subst strings_Map.simps) simp

lemma strings_Map_dot: "strings_Map f (0x2E # v) = EncodeRune (f 0x2E) @ strings_Map f v"
proof -
  have "DecodeRuneInString (0x2E # v) = (0x2E, 1)"
    by (rule DecodeRuneInString_ascii) simp
  then show ?thesis
    using strings_Map_step [of "0x2E # v" f] by simp
qed

lemma strings_Map_append_dot:
  "strings_Map f (u @ 0x2E # v) = strings_Map f u @ EncodeRune (f 0x2E) @ strings_Map f v"
proof (induction u rule: length_induct)
  case (1 u)
  show ?case
  proof (cases "u = []")
    case True
    then show ?thesis by (simp only: strings_Map_Nil strings_Map_dot append_Nil)
  next
    case False
    let ?w = "snd (DecodeRuneInString u)"
    let ?r = "fst (DecodeRuneInString u)"
    have w: "1 \<le> ?w" "?w \<le> length u"
      using DecodeRuneInString_width [OF False] DecodeRuneInString_width_le [of u] by simp_all
    then have shorter: "length (drop ?w u) < length u" using False by (cases u) auto
    have dec: "DecodeRuneInString (u @ 0x2E # v) = DecodeRuneInString u"
      using False by (rule DecodeRuneInString_append_dot)
    have dr: "drop ?w (u @ 0x2E # v) = drop ?w u @ 0x2E # v"
      using w by simp
    have ne: "u @ 0x2E # v \<noteq> []" by simp
    have "strings_Map f (u @ 0x2E # v) =
            EncodeRune (f ?r) @ strings_Map f (drop ?w u @ 0x2E # v)"
      by (simp only: strings_Map_step [OF ne] dec dr)
    also have "strings_Map f (drop ?w u @ 0x2E # v) =
            strings_Map f (drop ?w u) @ EncodeRune (f 0x2E) @ strings_Map f v"
      using 1 [rule_format, OF shorter] .
    also have "EncodeRune (f ?r) @ strings_Map f (drop ?w u) @ EncodeRune (f 0x2E) @ strings_Map f v
               = strings_Map f u @ EncodeRune (f 0x2E) @ strings_Map f v"
      by (simp only: strings_Map_step [OF False, of f] append_assoc)
    finally show ?thesis .
  qed
qed

lemma unicode_ToLower_dot:
  assumes "\<forall>r. 0x80 \<le> r \<longrightarrow> unicode_To_LowerCase env r \<noteq> 0x2E"
  shows "unicode_ToLower env r = 0x2E \<longleftrightarrow> r = 0x2E"
proof (cases "r \<le> 0x7F")
  case True
  then show ?thesis by (auto simp add: unicode_ToLower_def)
next
  case False
  then have "0x80 \<le> r" by simp
  with assms have "unicode_To_LowerCase env r \<noteq> 0x2E" by blast
  with False show ?thesis by (simp add: unicode_ToLower_def)
qed

lemma DecodeRuneInString_dot:
  assumes "fst (DecodeRuneInString s) = 0x2E" and "s \<noteq> []"
  shows "0x2E \<in> set s"
proof -
  from assms(2) obtain b t where s: "s = b # t" by (cases s) auto
  show ?thesis
  proof (cases "b < 0x80")
    case True
    with assms(1) s show ?thesis by (simp add: DecodeRuneInString_ascii)
  next
    case False
    from DecodeRuneInString_nonascii [OF False, of t] assms(1) s show ?thesis by simp
  qed
qed

lemma strings_Map_bytes:
  assumes f: "\<And>r. f r = 0x2E \<Longrightarrow> r = 0x2E"
  shows "x \<in> set (strings_Map f s) \<Longrightarrow> x < 256 \<and> (x = 0x2E \<longrightarrow> 0x2E \<in> set s)"
proof (induction s rule: length_induct)
  case (1 s)
  note IH = 1(1) and mem = 1(2)
  show ?case
  proof (cases "s = []")
    case True
    with mem show ?thesis by (simp add: strings_Map_Nil)
  next
    case False
    let ?w = "snd (DecodeRuneInString s)"
    let ?r = "fst (DecodeRuneInString s)"
    have w: "1 \<le> ?w" using DecodeRuneInString_width [OF False] .
    then have shorter: "length (drop ?w s) < length s" using False by (cases s) auto
    have "strings_Map f s = EncodeRune (f ?r) @ strings_Map f (drop ?w s)"
      using False by (rule strings_Map_step)
    with mem have "x \<in> set (EncodeRune (f ?r)) \<or> x \<in> set (strings_Map f (drop ?w s))"
      by simp
    then show ?thesis
    proof
      assume e: "x \<in> set (EncodeRune (f ?r))"
      note eb = EncodeRune_bytes [OF e]
      have "0x2E \<in> set s" if "x = 0x2E"
      proof -
        from eb that have "f ?r = 0x2E" by simp
        then have "?r = 0x2E" by (rule f)
        then show ?thesis using False by (rule DecodeRuneInString_dot)
      qed
      with eb show ?thesis by simp
    next
      assume m: "x \<in> set (strings_Map f (drop ?w s))"
      have "x \<in> set (strings_Map f (drop ?w s)) \<longrightarrow>
          x < 256 \<and> (x = 0x2E \<longrightarrow> 0x2E \<in> set (drop ?w s))"
        using IH [THEN spec, of "drop ?w s"] shorter by (rule mp)
      with m have r: "x < 256" "x = 0x2E \<longrightarrow> 0x2E \<in> set (drop ?w s)" by simp_all
      have "set (drop ?w s) \<subseteq> set s" by (rule set_drop_subset)
      with r show ?thesis by auto
    qed
  qed
qed

lemma strings_Map_ascii:
  "list_all (\<lambda>c. c < 0x80) bs \<Longrightarrow>
     strings_Map (unicode_ToLower env) bs
       = map (\<lambda>c. if 0x41 \<le> c \<and> c \<le> 0x5A then c + 32 else c) bs"
proof (induction bs)
  case Nil
  then show ?case by (simp add: strings_Map_Nil)
next
  case (Cons b bs)
  then have b: "b < 0x80" and rest: "list_all (\<lambda>c. c < 0x80) bs" by simp_all
  have ne: "b # bs \<noteq> []" by simp
  have "strings_Map (unicode_ToLower env) (b # bs)
        = EncodeRune (unicode_ToLower env b) @ strings_Map (unicode_ToLower env) bs"
    by (simp add: strings_Map_step [OF ne] DecodeRuneInString_ascii [OF b])
  moreover have "EncodeRune (unicode_ToLower env b) = [if 0x41 \<le> b \<and> b \<le> 0x5A then b + 32 else b]"
    using b by (simp add: unicode_ToLower_def EncodeRune_def)
  ultimately show ?case using Cons.IH [OF rest] by simp
qed

lemma strings_ToLower_as_Map:
  "strings_ToLower env s = map char_of (strings_Map (unicode_ToLower env) (map of_char s))"
proof -
  let ?bs = "map of_char s :: nat list"
  let ?low = "\<lambda>c :: nat. if 0x41 \<le> c \<and> c \<le> 0x5A then c + 32 else c"
  show ?thesis
  proof (cases "list_all (\<lambda>c. c < 0x80) ?bs")
    case False
    then show ?thesis unfolding strings_ToLower_def Let_def by (simp only: if_False)
  next
    case True
    have m: "strings_Map (unicode_ToLower env) ?bs = map ?low ?bs"
      using True by (rule strings_Map_ascii)
    show ?thesis
    proof (cases "list_ex (\<lambda>c. 0x41 \<le> c \<and> c \<le> 0x5A) ?bs")
      case up: True
      have "strings_ToLower env s = map (\<lambda>c. char_of (?low c)) ?bs"
        unfolding strings_ToLower_def Let_def using True up by (simp only: if_True not_True_eq_False if_False)
      also have "\<dots> = map char_of (map ?low ?bs)"
        by (simp only: map_map comp_def)
      finally show ?thesis by (simp only: m)
    next
      case noup: False
      have "strings_ToLower env s = s"
        unfolding strings_ToLower_def Let_def using True noup by (simp only: if_True not_False_eq_True)
      moreover have "map ?low ?bs = ?bs"
      proof (rule map_idI)
        fix c assume "c \<in> set ?bs"
        with noup have "\<not> (0x41 \<le> c \<and> c \<le> 0x5A)" unfolding list_ex_iff by blast
        then show "?low c = c" by (simp only: if_False)
      qed
      moreover have "map char_of ?bs = s"
        by (simp only: map_map comp_def char_of_char map_ident)
      ultimately show ?thesis by (simp only: m)
    qed
  qed
qed

lemma of_char_dot: "of_char (CHR ''.'') = (0x2E :: nat)"
  by simp

lemma char_of_dot: "char_of (0x2E :: nat) = CHR ''.''"
  by (simp only: of_char_dot [symmetric] char_of_char)

lemma strings_ToLower_append_dot:
  "strings_ToLower env (u @ CHR ''.'' # t)
     = strings_ToLower env u @ CHR ''.'' # strings_ToLower env t"
proof -
  let ?f = "unicode_ToLower env"
  have "?f 0x2E = 0x2E" by (simp add: unicode_ToLower_def)
  then have e: "EncodeRune (?f 0x2E) = [0x2E]" by (simp add: EncodeRune_def)
  have "map of_char (u @ CHR ''.'' # t) = map of_char u @ (0x2E :: nat) # map of_char t"
    by (simp only: map_append list.map of_char_dot)
  then have "strings_Map ?f (map of_char (u @ CHR ''.'' # t))
             = strings_Map ?f (map of_char u) @ [0x2E] @ strings_Map ?f (map of_char t)"
    by (simp only: strings_Map_append_dot e)
  then show ?thesis
    by (simp only: strings_ToLower_as_Map map_append list.map char_of_dot append_Cons append_Nil)
qed

lemma strings_ToLower_no_dot:
  assumes "\<forall>r. 0x80 \<le> r \<longrightarrow> unicode_To_LowerCase env r \<noteq> 0x2E"
    and "CHR ''.'' \<notin> set s"
  shows "CHR ''.'' \<notin> set (strings_ToLower env s)"
proof
  assume "CHR ''.'' \<in> set (strings_ToLower env s)"
  then have "CHR ''.'' \<in> char_of ` set (strings_Map (unicode_ToLower env) (map of_char s))"
    by (simp only: strings_ToLower_as_Map set_map)
  then obtain x where x: "x \<in> set (strings_Map (unicode_ToLower env) (map of_char s))"
    and c: "CHR ''.'' = char_of x"
    by (rule imageE)
  have f: "r = 0x2E" if "unicode_ToLower env r = 0x2E" for r
    using unicode_ToLower_dot [OF assms(1), of r] that by (rule iffD1)
  from strings_Map_bytes [where f = "unicode_ToLower env", OF f x]
  have b: "x < 256" and d: "x = 0x2E \<longrightarrow> 0x2E \<in> set (map of_char s :: nat list)"
    by simp_all
  have "of_char (char_of x :: char) = x mod 256" by (rule of_char_of)
  with b have "of_char (char_of x :: char) = x" by simp
  with c have "x = 0x2E" by (simp only: c [symmetric] of_char_dot)
  with d have "(0x2E :: nat) \<in> of_char ` set s" by simp
  then obtain ch where ch: "ch \<in> set s" and o: "(0x2E :: nat) = of_char ch" by (rule imageE)
  have "char_of (of_char ch :: nat) = ch" by (rule char_of_char)
  then have "ch = CHR ''.''" by (simp only: o [symmetric] char_of_dot)
  with ch assms(2) show False by simp
qed

lemma lastIndexFrom_none: "c \<notin> set s \<Longrightarrow> lastIndexFrom s c i found = found"
  by (induction s arbitrary: i) auto

lemma lastIndexFrom_last:
  "c \<notin> set t \<Longrightarrow> lastIndexFrom (u @ c # t) c i found = i + int (length u)"
  by (induction u arbitrary: i found) (simp_all add: lastIndexFrom_none)

lemma strings_LastIndex_none: "c \<notin> set s \<Longrightarrow> strings_LastIndex s c = - 1"
  by (simp add: strings_LastIndex_def lastIndexFrom_none)

lemma strings_LastIndex_last:
  "c \<notin> set t \<Longrightarrow> strings_LastIndex (u @ c # t) c = int (length u)"
  by (simp add: strings_LastIndex_def lastIndexFrom_last)

lemma TopLevelDomainExists_no_dot:
  assumes "\<forall>r. 0x80 \<le> r \<longrightarrow> unicode_To_LowerCase env r \<noteq> 0x2E"
    and "CHR ''.'' \<notin> set s"
  shows "\<not> TopLevelDomainExists env s"
proof -
  have "strings_LastIndex (strings_ToLower env s) (CHR ''.'') = - 1"
    using strings_ToLower_no_dot [OF assms] by (rule strings_LastIndex_none)
  then show ?thesis by (simp add: TopLevelDomainExists_def)
qed

lemma TopLevelDomainExists_after_last_dot:
  assumes "\<forall>r. 0x80 \<le> r \<longrightarrow> unicode_To_LowerCase env r \<noteq> 0x2E"
    and "CHR ''.'' \<notin> set t"
  shows "TopLevelDomainExists env (u @ CHR ''.'' # t)
         = (strings_ToLower env t \<in> GenericTLDs env \<or> strings_ToLower env t \<in> CountryCodeTLDs env)"
proof -
  let ?L = "strings_ToLower env"
  have i: "strings_LastIndex (?L u @ CHR ''.'' # ?L t) (CHR ''.'') = int (length (?L u))"
    using strings_ToLower_no_dot [OF assms] by (rule strings_LastIndex_last)
  have "int (length (?L u)) \<noteq> - 1" by simp
  moreover have "drop (nat (int (length (?L u)) + 1)) (?L u @ CHR ''.'' # ?L t) = ?L t"
    by (simp add: nat_add_distrib)
  ultimately show ?thesis
    unfolding TopLevelDomainExists_def Let_def strings_ToLower_append_dot i
    by (simp only: if_False)
qed

text \<open>
  C9. \<open>TopLevelDomainExists\<close> is false on every input without a dot. An input
  with a dot splits at its last dot into \<open>u\<close>, the dot and a dot-free rest \<open>t\<close>,
  and the result is the membership of the lowercased \<open>t\<close> in the generic or the
  country-code table. So two inputs whose texts after the last dot have the same
  lowercase form get the same result: upper and lower case are not distinguished and
  nothing before the last dot matters. The case tables of the \<open>unicode\<close> package are
  a parameter; the statement needs of them that no rune outside ASCII has the full
  stop as its lowercase form.
\<close>

theorem TopLevelDomainExists_last_label:
  assumes "\<forall>r. 0x80 \<le> r \<longrightarrow> unicode_To_LowerCase env r \<noteq> 0x2E"
  shows "(CHR ''.'' \<notin> set s \<longrightarrow> \<not> TopLevelDomainExists env s)
       \<and> (CHR ''.'' \<in> set s \<longrightarrow>
            (\<exists>u t. s = u @ CHR ''.'' # t \<and> CHR ''.'' \<notin> set t
               \<and> TopLevelDomainExists env s
                   = (strings_ToLower env t \<in> GenericTLDs env
                      \<or> strings_ToLower env t \<in> CountryCodeTLDs env)))
       \<and> (CHR ''.'' \<notin> set t \<and> CHR ''.'' \<notin> set t'
             \<and> strings_ToLower env t = strings_ToLower env t'
           \<longrightarrow> TopLevelDomainExists env (u @ CHR ''.'' # t)
                 = TopLevelDomainExists env (u' @ CHR ''.'' # t'))"
proof (intro conjI impI)
  assume "CHR ''.'' \<notin> set s"
  with assms show "\<not> TopLevelDomainExists env s" by (rule TopLevelDomainExists_no_dot)
next
  assume "CHR ''.'' \<in> set s"
  then obtain a b where s: "s = a @ CHR ''.'' # b" and b: "CHR ''.'' \<notin> set b"
    by (meson split_list_last)
  from TopLevelDomainExists_after_last_dot [OF assms b, of a] s b
  show "\<exists>u t. s = u @ CHR ''.'' # t \<and> CHR ''.'' \<notin> set t
               \<and> TopLevelDomainExists env s
                   = (strings_ToLower env t \<in> GenericTLDs env
                      \<or> strings_ToLower env t \<in> CountryCodeTLDs env)"
    by blast
next
  assume h: "CHR ''.'' \<notin> set t \<and> CHR ''.'' \<notin> set t'
             \<and> strings_ToLower env t = strings_ToLower env t'"
  then have "TopLevelDomainExists env (u @ CHR ''.'' # t)
             = (strings_ToLower env t \<in> GenericTLDs env \<or> strings_ToLower env t \<in> CountryCodeTLDs env)"
    and "TopLevelDomainExists env (u' @ CHR ''.'' # t')
             = (strings_ToLower env t' \<in> GenericTLDs env \<or> strings_ToLower env t' \<in> CountryCodeTLDs env)"
    using TopLevelDomainExists_after_last_dot [OF assms] by simp_all
  with h show "TopLevelDomainExists env (u @ CHR ''.'' # t)
                 = TopLevelDomainExists env (u' @ CHR ''.'' # t')"
    by simp
qed

lemma char_of_eq: "of_char c = (n :: nat) \<Longrightarrow> char_of n = c"
  by (erule subst) (rule char_of_char)

lemma char_of_lower_examples:
  "char_of (99 :: nat) = CHR ''c''" "char_of (104 :: nat) = CHR ''h''"
  "char_of (111 :: nat) = CHR ''o''" "char_of (114 :: nat) = CHR ''r''"
  "char_of (103 :: nat) = CHR ''g''"
  by (rule char_of_eq, simp)+

theorem TopLevelDomainExists_last_label_witness:
  "\<not> TopLevelDomainExists exampleEnv ''localhost''
   \<and> TopLevelDomainExists exampleEnv ''example.CH''
   \<and> \<not> TopLevelDomainExists exampleEnv ''example.con''
   \<and> TopLevelDomainExists exampleEnv ''mail.Example.ORG''
       = TopLevelDomainExists exampleEnv ''x.org''"
proof -
  have h: "\<forall>r. 0x80 \<le> r \<longrightarrow> unicode_To_LowerCase exampleEnv r \<noteq> 0x2E"
    by (simp add: exampleEnv_def)
  have l: "strings_ToLower exampleEnv ''ORG'' = strings_ToLower exampleEnv ''org''"
    by (simp add: strings_ToLower_def char_of_lower_examples)
  have e: "TopLevelDomainExists exampleEnv ''example.CH''"
    "\<not> TopLevelDomainExists exampleEnv ''example.con''"
    by (simp_all add: TopLevelDomainExists_def strings_LastIndex_def strings_ToLower_def
        exampleEnv_def char_of_lower_examples char_of_dot)
  from TopLevelDomainExists_last_label [OF h, of "''localhost''" "''ORG''" "''org''"
      "''mail.Example''" "''x''"] l e
  show ?thesis by simp
qed

end
